theory Spec2Isabelle
  imports Main
begin

section \<open>The diff engine of watcher.go\<close>

text \<open>
  \<^verbatim>\<open>LineChange\<close> of watcher.go. The two line-number fields are Go \<^verbatim>\<open>int\<close>s that
  only ever hold \<^verbatim>\<open>0\<close> (the zero value of an unset field) or a loop index between
  \<^verbatim>\<open>1\<close> and the length of a slice, so they are natural numbers here.
\<close>

record LineChange =
  Type :: string
  OldLine :: nat
  NewLine :: nat
  OldText :: string
  NewText :: string

abbreviation nl :: char where
  "nl \<equiv> CHR 0x0A"

text \<open>
  \<^verbatim>\<open>strings.Split(s, "\n")\<close> for a one-byte separator: the fragments between the
  separators, in order. The empty string gives one empty fragment, never no fragment.
\<close>

fun Split :: "string \<Rightarrow> char \<Rightarrow> string list" where
  "Split [] sep = [[]]"
| "Split (c # cs) sep =
     (if c = sep then [] # Split cs sep
      else (c # hd (Split cs sep)) # tl (Split cs sep))"

text \<open>The helper \<^verbatim>\<open>max\<close> of watcher.go.\<close>

definition maxInt :: "nat \<Rightarrow> nat \<Rightarrow> nat" where
  "maxInt a b = (if a > b then a else b)"

text \<open>
  The table \<^verbatim>\<open>dp\<close>: \<^verbatim>\<open>m+1\<close> rows of \<^verbatim>\<open>n+1\<close> zeros, then the two nested loops
  \<^verbatim>\<open>for i := 1; i <= m\<close> and \<^verbatim>\<open>for j := 1; j <= n\<close>, each round writing one cell.
\<close>

definition newTable :: "nat \<Rightarrow> nat \<Rightarrow> nat list list" where
  "newTable m n = replicate (m + 1) (replicate (n + 1) 0)"

definition fillCell ::
  "string list \<Rightarrow> string list \<Rightarrow> nat \<Rightarrow> nat \<Rightarrow> nat list list \<Rightarrow> nat list list" where
  "fillCell oldLines newLines i j dp =
     (if oldLines ! (i - 1) = newLines ! (j - 1)
      then dp[i := (dp ! i)[j := dp ! (i - 1) ! (j - 1) + 1]]
      else dp[i := (dp ! i)[j := maxInt (dp ! (i - 1) ! j) (dp ! i ! (j - 1))]])"

definition fillRow ::
  "string list \<Rightarrow> string list \<Rightarrow> nat \<Rightarrow> nat \<Rightarrow> nat list list \<Rightarrow> nat list list" where
  "fillRow oldLines newLines n i dp = fold (fillCell oldLines newLines i) [1..<n + 1] dp"

definition fillTable :: "string list \<Rightarrow> string list \<Rightarrow> nat \<Rightarrow> nat \<Rightarrow> nat list list" where
  "fillTable oldLines newLines m n =
     fold (fillRow oldLines newLines n) [1..<m + 1] (newTable m n)"

definition added :: "nat \<Rightarrow> string \<Rightarrow> LineChange" where
  "added j text =
     \<lparr>Type = ''added'', OldLine = 0, NewLine = j, OldText = '''', NewText = text\<rparr>"

definition removed :: "nat \<Rightarrow> string \<Rightarrow> LineChange" where
  "removed i text =
     \<lparr>Type = ''removed'', OldLine = i, NewLine = 0, OldText = text, NewText = ''''\<rparr>"

text \<open>
  The backward walk \<^verbatim>\<open>for i > 0 || j > 0 { switch { ... } }\<close>. Each case prepends to
  \<^verbatim>\<open>changes\<close>. The \<^verbatim>\<open>switch\<close> has no default: were no case to apply, the loop
  would go round again with the same \<^verbatim>\<open>i\<close> and \<^verbatim>\<open>j\<close>, which is the last branch
  below; not returning is the value \<open>None\<close>.
\<close>

partial_function (option) backtrack ::
  "string list \<Rightarrow> string list \<Rightarrow> nat list list \<Rightarrow> nat \<Rightarrow> nat \<Rightarrow> LineChange list
     \<Rightarrow> LineChange list option" where
  [code]: "backtrack oldLines newLines dp i j changes =
     (if i > 0 \<or> j > 0 then
        (if i > 0 \<and> j > 0 \<and> oldLines ! (i - 1) = newLines ! (j - 1)
         then backtrack oldLines newLines dp (i - 1) (j - 1) changes
         else if j > 0 \<and> (i = 0 \<or> dp ! i ! (j - 1) \<ge> dp ! (i - 1) ! j)
         then backtrack oldLines newLines dp i (j - 1) (added j (newLines ! (j - 1)) # changes)
         else if i > 0 \<and> (j = 0 \<or> dp ! i ! (j - 1) < dp ! (i - 1) ! j)
         then backtrack oldLines newLines dp (i - 1) j (removed i (oldLines ! (i - 1)) # changes)
         else backtrack oldLines newLines dp i j changes)
      else Some changes)"

text \<open>
  \<^verbatim>\<open>compareLines\<close>, in two parts: \<open>diffLines\<close> is the body after the two calls of
  \<^verbatim>\<open>strings.Split\<close>, on the two line slices.
\<close>

definition diffLines :: "string list \<Rightarrow> string list \<Rightarrow> LineChange list option" where
  "diffLines oldLines newLines =
     (let m = length oldLines;
          n = length newLines;
          dp = fillTable oldLines newLines m n
      in backtrack oldLines newLines dp m n [])"

definition compareLines :: "string \<Rightarrow> string \<Rightarrow> LineChange list option" where
  "compareLines oldContent newContent =
     diffLines (Split oldContent nl) (Split newContent nl)"

section \<open>Errors, files and the file system\<close>

text \<open>
  The error values the program makes or passes on. \<open>EOF\<close> is \<^verbatim>\<open>io.EOF\<close>; \<open>SysError\<close>
  is an error of the operating system (from \<^verbatim>\<open>os.Open\<close>, \<^verbatim>\<open>Stat\<close> or a read);
  \<open>TooLarge\<close> and \<open>UnknownType\<close> are the two errors made with \<^verbatim>\<open>fmt.Errorf\<close>;
  \<open>SyntaxError\<close> is what \<^verbatim>\<open>json.Unmarshal\<close> returns.
\<close>

datatype error =
    EOF
  | SysError string
  | TooLarge int int
  | UnknownType string
  | SyntaxError string

text \<open>
  What the program sees of \<^verbatim>\<open>os.FileInfo\<close> (\<^verbatim>\<open>Size()\<close> is an \<^verbatim>\<open>int64\<close>; it is only
  compared with \<^verbatim>\<open>10 * 1024 * 1024\<close>, so it is an integer here), of an opened file (the
  result of \<^verbatim>\<open>Stat\<close>, the bytes a reader gets, and the error that ends the reading,
  \<open>None\<close> for \<^verbatim>\<open>io.EOF\<close>), and of the file system (the result of \<^verbatim>\<open>os.Open\<close> for every
  path). The size \<^verbatim>\<open>Stat\<close> reports and the bytes are separate: the code compares the one
  and reads the other.
\<close>

record os_FileInfo =
  Size :: int
  ModTime :: int
  IsDir :: bool

record File =
  Stat :: "error + os_FileInfo"
  Bytes :: string
  ReadErr :: "error option"

type_synonym filesystem = "string \<Rightarrow> error + File"

definition oneFile :: "string \<Rightarrow> File \<Rightarrow> filesystem" where
  "oneFile path file =
     (\<lambda>p. if p = path then Inr file else Inl (SysError ''no such file or directory''))"

definition maxSize :: int where
  "maxSize = 10 * 1024 * 1024"

text \<open>
  \<^verbatim>\<open>reader.ReadString('\n')\<close> on the bytes not yet read: the bytes up to and with the
  first delimiter and no error, or, when no delimiter is left, the rest of the bytes with
  the error that ends the reading.
\<close>

definition ReadString :: "File \<Rightarrow> string \<Rightarrow> char \<Rightarrow> (string \<times> error option) \<times> string" where
  "ReadString file unread delim =
     (case dropWhile (\<lambda>c. c \<noteq> delim) unread of
        [] \<Rightarrow> ((unread, Some (case ReadErr file of None \<Rightarrow> EOF | Some e \<Rightarrow> e)), [])
      | d # rest \<Rightarrow> ((takeWhile (\<lambda>c. c \<noteq> delim) unread @ [d], None), rest))"

text \<open>
  The loop of the method \<^verbatim>\<open>readFileContent\<close>: every line read goes to the buffer;
  \<^verbatim>\<open>io.EOF\<close> ends the loop with the buffer, any other error with that error.
\<close>

function readLoop :: "File \<Rightarrow> string \<Rightarrow> string \<Rightarrow> error + string" where
  "readLoop file unread buffer =
     (case ReadString file unread nl of
        ((line, Some err), rest) \<Rightarrow> (if err = EOF then Inr (buffer @ line) else Inl err)
      | ((line, None), rest) \<Rightarrow> readLoop file rest (buffer @ line))"
  by pat_completeness auto
termination
proof (relation "measure (\<lambda>(file, unread, buffer). length unread)")
  fix fl :: File and unread buffer line rest :: string
    and x :: "string \<times> error option" and err :: "error option"
  assume "(x, rest) = ReadString fl unread nl" "(line, err) = x" "err = None"
  then have "ReadString fl unread nl = ((line, None), rest)"
    by simp
  then obtain d where "dropWhile (\<lambda>c. c \<noteq> nl) unread = d # rest"
    by (auto simp: ReadString_def split: list.splits)
  then have "Suc (length rest) \<le> length unread"
    by (metis length_Cons length_dropWhile_le)
  then show "((fl, rest, buffer @ line), (fl, unread, buffer))
      \<in> measure (\<lambda>(file, unread, buffer). length unread)"
    by simp
qed simp

declare readLoop.simps [simp del]

text \<open>\<^verbatim>\<open>io.ReadAll\<close>: all the bytes, unless the reading ends with an error other than \<^verbatim>\<open>io.EOF\<close>.\<close>

definition ReadAll :: "File \<Rightarrow> error + string" where
  "ReadAll file =
     (case ReadErr file of
        None \<Rightarrow> Inr (Bytes file)
      | Some e \<Rightarrow> if e = EOF then Inr (Bytes file) else Inl e)"

text \<open>\<^verbatim>\<open>os.ReadFile\<close>: open, then read everything.\<close>

definition ReadFile :: "filesystem \<Rightarrow> string \<Rightarrow> error + string" where
  "ReadFile fs name = (case fs name of Inl err \<Rightarrow> Inl err | Inr file \<Rightarrow> ReadAll file)"

text \<open>
  The two functions \<^verbatim>\<open>readFileContent\<close> of watcher.go: the method of \<^verbatim>\<open>FileWatcher\<close> and
  the package-level function that \<^verbatim>\<open>WatchDirectory\<close> calls. Both return Go's triple of
  content, file info (\<open>None\<close> for \<^verbatim>\<open>nil\<close>) and error (\<open>None\<close> for \<^verbatim>\<open>nil\<close>).
\<close>

definition FileWatcher_readFileContent ::
  "filesystem \<Rightarrow> string \<Rightarrow> string \<times> os_FileInfo option \<times> error option" where
  "FileWatcher_readFileContent fs filePath =
     (case fs filePath of
        Inl err \<Rightarrow> ('''', None, Some err)
      | Inr file \<Rightarrow>
          (case Stat file of
             Inl err \<Rightarrow> ('''', None, Some err)
           | Inr fileInfo \<Rightarrow>
               if Size fileInfo > maxSize
               then ('''', Some fileInfo, Some (TooLarge (Size fileInfo) maxSize))
               else (case readLoop file (Bytes file) [] of
                       Inl err \<Rightarrow> ('''', None, Some err)
                     | Inr buffer \<Rightarrow> (buffer, Some fileInfo, None))))"

definition readFileContent ::
  "filesystem \<Rightarrow> string \<Rightarrow> string \<times> os_FileInfo option \<times> error option" where
  "readFileContent fs filePath =
     (case fs filePath of
        Inl err \<Rightarrow> ('''', None, Some err)
      | Inr file \<Rightarrow>
          (case Stat file of
             Inl err \<Rightarrow> ('''', None, Some err)
           | Inr fileInfo \<Rightarrow>
               if Size fileInfo > maxSize
               then ('''', Some fileInfo, Some (TooLarge (Size fileInfo) maxSize))
               else (case ReadAll file of
                       Inl err \<Rightarrow> ('''', Some fileInfo, Some err)
                     | Inr content \<Rightarrow> (content, Some fileInfo, None))))"

section \<open>The watchers of watcher.go\<close>

text \<open>
  \<^verbatim>\<open>FileChange\<close>. \<open>LineChanges\<close> is \<open>None\<close> for the \<^verbatim>\<open>nil\<close> slice, and \<open>FileInfo\<close> is
  \<open>None\<close> for the \<^verbatim>\<open>nil\<close> interface.
\<close>

record FileChange =
  Path :: string
  Op :: string
  Content :: string
  PrevContent :: string
  LineChanges :: "LineChange list option"
  FileInfo :: "os_FileInfo option"

text \<open>
  \<^verbatim>\<open>FileWatcher\<close>: of its fields only the cache is state of the program here. Reading a
  Go map at a key it does not hold gives the zero value, the empty string.
\<close>

record FileWatcher =
  fileCache :: "string \<rightharpoonup> string"

definition cacheGet :: "FileWatcher \<Rightarrow> string \<Rightarrow> string" where
  "cacheGet fw filePath = (case fileCache fw filePath of None \<Rightarrow> '''' | Some c \<Rightarrow> c)"

text \<open>
  \<^verbatim>\<open>handleFileChange\<close>. The argument \<open>callback\<close> says whether the callback is not
  \<^verbatim>\<open>nil\<close>; the result is the watcher after the call and the records the callback was
  called with, in order. The result is \<open>None\<close> when \<^verbatim>\<open>compareLines\<close> does not return.
\<close>

definition handleFileChange ::
  "filesystem \<Rightarrow> FileWatcher \<Rightarrow> string \<Rightarrow> bool \<Rightarrow> (FileWatcher \<times> FileChange list) option" where
  "handleFileChange fs fw filePath callback =
     (case FileWatcher_readFileContent fs filePath of
        (newContent, fileInfo, Some err) \<Rightarrow> Some (fw, [])
      | (newContent, fileInfo, None) \<Rightarrow>
          (let oldContent = cacheGet fw filePath in
           case compareLines oldContent newContent of
             None \<Rightarrow> None
           | Some changes \<Rightarrow>
               (let fw' = fw\<lparr>fileCache := (fileCache fw)(filePath \<mapsto> newContent)\<rparr>;
                    fileChange = \<lparr>Path = filePath, Op = ''modified'', Content = newContent,
                      PrevContent = oldContent, LineChanges = Some changes,
                      FileInfo = fileInfo\<rparr>
                in Some (fw', if callback then [fileChange] else []))))"

text \<open>
  An event of fsnotify: the name of the file and the set of operations (\<^verbatim>\<open>event.Op\<close>, a
  bit mask; \<^verbatim>\<open>event.Has(op)\<close> tests one bit).
\<close>

datatype fsnotify_Op = Create | Write | Remove | Rename | Chmod

record fsnotify_Event =
  Name :: string
  OpBits :: "fsnotify_Op set"

definition Has :: "fsnotify_Event \<Rightarrow> fsnotify_Op \<Rightarrow> bool" where
  "Has event op = (op \<in> OpBits event)"

text \<open>
  One round of the loop of \<^verbatim>\<open>WatchFile\<close> and one round of the loop of
  \<^verbatim>\<open>WatchDirectory\<close>, for an event received from \<^verbatim>\<open>watcher.Events\<close>.
\<close>

definition WatchFile_event ::
  "filesystem \<Rightarrow> FileWatcher \<Rightarrow> fsnotify_Event \<Rightarrow> bool \<Rightarrow> (FileWatcher \<times> FileChange list) option" where
  "WatchFile_event fs fw event callback =
     (if Has event Write then handleFileChange fs fw (Name event) callback
      else Some (fw, []))"

definition WatchDirectory_op :: "fsnotify_Event \<Rightarrow> string option" where
  "WatchDirectory_op event =
     (if Has event Write then Some ''modified''
      else if Has event Create then Some ''created''
      else if Has event Remove then Some ''removed''
      else if Has event Rename then Some ''renamed''
      else None)"

definition WatchDirectory_event :: "filesystem \<Rightarrow> fsnotify_Event \<Rightarrow> bool \<Rightarrow> FileChange list" where
  "WatchDirectory_event fs event callback =
     (case WatchDirectory_op event of
        None \<Rightarrow> []
      | Some op \<Rightarrow>
          if op = ''removed'' \<or> op = ''renamed''
          then (if callback
                then [\<lparr>Path = Name event, Op = op, Content = '''', PrevContent = '''',
                       LineChanges = None, FileInfo = None\<rparr>]
                else [])
          else (case readFileContent fs (Name event) of
                  (content, fileInfo, Some err) \<Rightarrow> []
                | (content, fileInfo, None) \<Rightarrow>
                    if callback
                    then [\<lparr>Path = Name event, Op = op, Content = content, PrevContent = '''',
                           LineChanges = None, FileInfo = fileInfo\<rparr>]
                    else []))"

section \<open>Messages: main.go\<close>

text \<open>
  A JSON value, as \<^verbatim>\<open>encoding/json\<close> builds it from a Go value: an object is the list of
  its members in the order they are written (the fields of a struct in the order of
  declaration, the keys of a map in sorted order). A string is the string that the written
  JSON text denotes, as UTF-8 bytes.
\<close>

datatype json =
    JNull
  | JBool bool
  | JNumber int
  | JString string
  | JArray "json list"
  | JObject "(string \<times> json) list"

text \<open>
  What \<^verbatim>\<open>json.Marshal\<close> makes of a Go string. It walks the bytes with
  \<^verbatim>\<open>utf8.DecodeRuneInString\<close> and writes the escape of U+FFFD for every byte at which no valid
  encoding of a rune starts; every other byte is written as itself or as an escape that
  denotes it. \<open>acceptRange\<close> is the table of \<^verbatim>\<open>unicode/utf8\<close>: for a leading byte, the
  length of the encoding and the range of the second byte. \<open>DecodeRuneInString\<close> gives the
  length of the encoding at the start of the string, or \<open>None\<close> where Go gives
  \<^verbatim>\<open>RuneError\<close> with the length 1.
\<close>

definition acceptRange :: "nat \<Rightarrow> (nat \<times> nat \<times> nat) option" where
  "acceptRange s0 =
     (if 194 \<le> s0 \<and> s0 \<le> 223 then Some (2, 128, 191)
      else if s0 = 224 then Some (3, 160, 191)
      else if 225 \<le> s0 \<and> s0 \<le> 236 then Some (3, 128, 191)
      else if s0 = 237 then Some (3, 128, 159)
      else if 238 \<le> s0 \<and> s0 \<le> 239 then Some (3, 128, 191)
      else if s0 = 240 then Some (4, 144, 191)
      else if 241 \<le> s0 \<and> s0 \<le> 243 then Some (4, 128, 191)
      else if s0 = 244 then Some (4, 128, 143)
      else None)"

definition byteAt :: "string \<Rightarrow> nat \<Rightarrow> nat" where
  "byteAt s k = of_char (s ! k)"

definition DecodeRuneInString :: "string \<Rightarrow> nat option" where
  "DecodeRuneInString s =
     (if s = [] then None
      else if byteAt s 0 < 128 then Some 1
      else (case acceptRange (byteAt s 0) of
              None \<Rightarrow> None
            | Some (sz, lo, hi) \<Rightarrow>
                if length s < sz then None
                else if byteAt s 1 < lo \<or> hi < byteAt s 1 then None
                else if sz \<le> 2 then Some 2
                else if byteAt s 2 < 128 \<or> 191 < byteAt s 2 then None
                else if sz \<le> 3 then Some 3
                else if byteAt s 3 < 128 \<or> 191 < byteAt s 3 then None
                else Some 4))"

text \<open>
  The bytes of U+FFFD in UTF-8, and the walk over the string: \<open>k\<close> is the number of bytes
  still to copy of the encoding that was last decoded.
\<close>

definition replacementChar :: string where
  "replacementChar = [CHR 0xEF, CHR 0xBF, CHR 0xBD]"

fun validUTF8From :: "nat \<Rightarrow> string \<Rightarrow> string" where
  "validUTF8From k [] = []"
| "validUTF8From (Suc k) (c # cs) = c # validUTF8From k cs"
| "validUTF8From 0 (c # cs) =
     (case DecodeRuneInString (c # cs) of
        None \<Rightarrow> replacementChar @ validUTF8From 0 cs
      | Some sz \<Rightarrow> c # validUTF8From (sz - 1) cs)"

definition validUTF8 :: "string \<Rightarrow> string" where
  "validUTF8 s = validUTF8From 0 s"

text \<open>
  \<^verbatim>\<open>SocketMessage\<close>; its fields \<^verbatim>\<open>Type\<close> and \<^verbatim>\<open>Data\<close> are \<open>MsgType\<close> and \<open>MsgData\<close>
  here.
\<close>

record SocketMessage =
  MsgType :: string
  MsgData :: json

text \<open>
  How a call ends: it returns, or the process exits (\<^verbatim>\<open>log.Fatalf\<close> prints and calls
  \<^verbatim>\<open>os.Exit(1)\<close>), or it panics, or it waits (a send on a channel whose buffer is full).
\<close>

datatype 'a outcome =
    Return 'a
  | Exit int
  | Panic string
  | Blocks

text \<open>
  The name of the Go type of the value that \<^verbatim>\<open>json.Unmarshal\<close> puts into an
  \<^verbatim>\<open>interface{}\<close>, as a failed type assertion prints it.
\<close>

fun dynamicType :: "json \<Rightarrow> string" where
  "dynamicType JNull = ''nil''"
| "dynamicType (JBool b) = ''bool''"
| "dynamicType (JNumber n) = ''float64''"
| "dynamicType (JString s) = ''string''"
| "dynamicType (JArray xs) = ''[]interface {}''"
| "dynamicType (JObject members) = ''map[string]interface {}''"

text \<open>
  \<^verbatim>\<open>onSocketMessage\<close>. Its argument is what \<^verbatim>\<open>json.Unmarshal\<close> makes of the bytes of the
  message: an error, or the envelope. The result is Go's pair of bytes and error as a
  sum; the bytes are given as the JSON value that \<^verbatim>\<open>json.Marshal\<close> writes (marshalling
  these maps of strings does not fail). The \<^verbatim>\<open>return nil, err\<close> after each
  \<^verbatim>\<open>log.Fatalf\<close> is never reached.
\<close>

definition onSocketMessage ::
  "string \<Rightarrow> filesystem \<Rightarrow> error + SocketMessage \<Rightarrow> (error + json) outcome" where
  "onSocketMessage watchPath fs unmarshalled =
     (case unmarshalled of
        Inl err \<Rightarrow> Exit 1
      | Inr msg \<Rightarrow>
          if MsgType msg = ''get_info''
          then Return (Inr (JObject
                 [(''data'', JObject [(''path'', JString (validUTF8 watchPath)),
                                      (''type'', JString ''file'')]),
                  (''type'', JString ''info'')]))
          else if MsgType msg = ''get_file_content''
          then (case MsgData msg of
                  JString name \<Rightarrow>
                    (case ReadFile fs name of
                       Inl err \<Rightarrow> Exit 1
                     | Inr content \<Rightarrow>
                         Return (Inr (JObject
                           [(''data'', JString (validUTF8 content)),
                            (''type'', JString ''file_content'')])))
                | other \<Rightarrow>
                    Panic (''interface conversion: interface {} is '' @ dynamicType other
                           @ '', not string''))
          else if MsgType msg = ''ping''
          then Return (Inr (JObject [(''type'', JString ''pong'')]))
          else Return (Inl (UnknownType (MsgType msg))))"

text \<open>
  \<^verbatim>\<open>json.Marshal\<close> of a \<^verbatim>\<open>LineChange\<close> and of a \<^verbatim>\<open>FileChange\<close>, by the tags of the
  fields: \<^verbatim>\<open>Content\<close> and \<^verbatim>\<open>PrevContent\<close> are tagged \<^verbatim>\<open>json:"-"\<close>, \<^verbatim>\<open>FileInfo\<close> is
  tagged \<^verbatim>\<open>json:"file_info"\<close>. The file info behind the interface is the one that
  \<^verbatim>\<open>file.Stat()\<close> of package \<^verbatim>\<open>os\<close> returns, a struct none of whose fields is
  exported: \<^verbatim>\<open>encoding/json\<close> writes an object with no member for it.
\<close>

definition marshalLineChange :: "LineChange \<Rightarrow> json" where
  "marshalLineChange c = JObject
     [(''type'', JString (validUTF8 (Type c))),
      (''old_line'', JNumber (int (OldLine c))),
      (''new_line'', JNumber (int (NewLine c))),
      (''old_text'', JString (validUTF8 (OldText c))),
      (''new_text'', JString (validUTF8 (NewText c)))]"

definition marshalFileInfo :: "os_FileInfo \<Rightarrow> json" where
  "marshalFileInfo info = JObject []"

definition marshalFileChange :: "FileChange \<Rightarrow> json" where
  "marshalFileChange change = JObject
     [(''path'', JString (validUTF8 (Path change))),
      (''op'', JString (validUTF8 (Op change))),
      (''line_changes'',
         (case LineChanges change of
            None \<Rightarrow> JNull
          | Some cs \<Rightarrow> JArray (map marshalLineChange cs))),
      (''file_info'',
         (case FileInfo change of
            None \<Rightarrow> JNull
          | Some info \<Rightarrow> marshalFileInfo info))]"

text \<open>
  \<^verbatim>\<open>onFileChange\<close>: the message it sends on \<^verbatim>\<open>wsServer.broadcast\<close>.
\<close>

definition onFileChange :: "FileChange \<Rightarrow> json" where
  "onFileChange change =
     JObject [(''data'', marshalFileChange change), (''type'', JString ''log'')]"

text \<open>The keys of the members of a JSON object, and the member at a key.\<close>

fun keys :: "json \<Rightarrow> string list" where
  "keys (JObject members) = map fst members"
| "keys _ = []"

fun member :: "json \<Rightarrow> string \<Rightarrow> json option" where
  "member (JObject members) key = map_of members key"
| "member _ key = None"

section \<open>The hub: websocket.go\<close>

text \<open>
  A \<^verbatim>\<open>Client\<close>: the buffered channel \<^verbatim>\<open>send\<close> (its content, oldest first, and whether
  it is closed) and whether the connection is closed. \<^verbatim>\<open>HandleWebSocket\<close> makes the
  channel with the capacity 256.
\<close>

record 'm Client =
  send :: "'m list"
  sendClosed :: bool
  connClosed :: bool

definition sendCap :: nat where
  "sendCap = 256"

text \<open>
  \<^verbatim>\<open>WebSocketServer\<close>: the keys of the map \<^verbatim>\<open>clients\<close> are pointers to clients; \<open>heap\<close>
  is what each pointer points to.
\<close>

record 'm WebSocketServer =
  clients :: "nat set"
  heap :: "nat \<Rightarrow> 'm Client"

text \<open>
  The body of the loop over \<^verbatim>\<open>s.clients\<close> in \<^verbatim>\<open>BroadcastMessages\<close>, for one client:
  the \<^verbatim>\<open>select\<close> sends when the send can proceed (a send on a closed channel proceeds
  and panics) and takes the \<^verbatim>\<open>default\<close> case when the buffer is full.
\<close>

definition BroadcastMessages_client ::
  "'m \<Rightarrow> nat \<Rightarrow> 'm WebSocketServer \<Rightarrow> 'm WebSocketServer outcome" where
  "BroadcastMessages_client message c s =
     (let client = heap s c in
      if sendClosed client then Panic ''send on closed channel''
      else if length (send client) < sendCap
      then Return (s\<lparr>heap := (heap s)(c := client\<lparr>send := send client @ [message]\<rparr>)\<rparr>)
      else Return (s\<lparr>clients := clients s - {c},
                     heap := (heap s)(c := client\<lparr>sendClosed := True, connClosed := True\<rparr>)\<rparr>))"

text \<open>
  One round of \<^verbatim>\<open>BroadcastMessages\<close> for a message received from \<^verbatim>\<open>s.broadcast\<close>: the
  loop over the map, in the order \<open>order\<close> (Go does not fix the order of a map).
\<close>

fun BroadcastMessages_range ::
  "'m \<Rightarrow> nat list \<Rightarrow> 'm WebSocketServer \<Rightarrow> 'm WebSocketServer outcome" where
  "BroadcastMessages_range message [] s = Return s"
| "BroadcastMessages_range message (c # cs) s =
     (case BroadcastMessages_client message c s of
        Return s' \<Rightarrow> BroadcastMessages_range message cs s'
      | Exit code \<Rightarrow> Exit code
      | Panic p \<Rightarrow> Panic p
      | Blocks \<Rightarrow> Blocks)"

text \<open>
  One round of the loop of \<^verbatim>\<open>handleClientRead\<close> for a message read from the connection
  of client \<open>c\<close>: an error of the handler is logged and the loop goes on; a response is
  sent on the channel of the client, which waits while the buffer is full.
\<close>

definition handleClientRead_message ::
  "('a \<Rightarrow> (error + 'm) outcome) \<Rightarrow> 'a \<Rightarrow> nat \<Rightarrow> 'm WebSocketServer \<Rightarrow> 'm WebSocketServer outcome" where
  "handleClientRead_message handler message c s =
     (case handler message of
        Exit code \<Rightarrow> Exit code
      | Panic p \<Rightarrow> Panic p
      | Blocks \<Rightarrow> Blocks
      | Return (Inl err) \<Rightarrow> Return s
      | Return (Inr response) \<Rightarrow>
          (let client = heap s c in
           if sendClosed client then Panic ''send on closed channel''
           else if length (send client) < sendCap
           then Return (s\<lparr>heap := (heap s)(c := client\<lparr>send := send client @ [response]\<rparr>)\<rparr>)
           else Blocks))"

text \<open>
  \<^verbatim>\<open>HandleWebSocket\<close> after a successful upgrade: a new client, at the address \<open>c\<close>,
  with an empty open channel, is put into the map. The function that \<^verbatim>\<open>handleClientRead\<close>
  defers, run when its loop ends: the client is deleted from the map, then its channel is
  closed (closing a closed channel panics) and its connection is closed.
\<close>

definition HandleWebSocket :: "nat \<Rightarrow> 'm WebSocketServer \<Rightarrow> 'm WebSocketServer" where
  "HandleWebSocket c s =
     s\<lparr>clients := insert c (clients s),
       heap := (heap s)(c := \<lparr>send = [], sendClosed = False, connClosed = False\<rparr>)\<rparr>"

definition handleClientRead_deferred ::
  "nat \<Rightarrow> 'm WebSocketServer \<Rightarrow> 'm WebSocketServer outcome" where
  "handleClientRead_deferred c s =
     (let client = heap s c in
      if sendClosed client then Panic ''close of closed channel''
      else Return (s\<lparr>clients := clients s - {c},
                     heap := (heap s)(c := client\<lparr>sendClosed := True, connClosed := True\<rparr>)\<rparr>))"

text \<open>
  The server is in order when every registered client has an open channel: both places
  that close a channel remove the client from the map first, under the lock.
\<close>

definition registryOpen :: "'m WebSocketServer \<Rightarrow> bool" where
  "registryOpen s = (\<forall>c \<in> clients s. \<not> sendClosed (heap s c))"

text \<open>
  Example inputs for the hub: a client with an empty channel, a client whose channel is
  full, and a server with the first at address 0 and the second at every other address,
  the addresses 0 and 1 registered.
\<close>

definition idleClient :: "'m Client" where
  "idleClient = \<lparr>send = [], sendClosed = False, connClosed = False\<rparr>"

definition slowClient :: "'m \<Rightarrow> 'm Client" where
  "slowClient backlog = \<lparr>send = replicate 256 backlog, sendClosed = False, connClosed = False\<rparr>"

definition twoClients :: "'m \<Rightarrow> 'm WebSocketServer" where
  "twoClients backlog =
     \<lparr>clients = {0, 1}, heap = (\<lambda>c. if c = 0 then idleClient else slowClient backlog)\<rparr>"

text \<open>What one round of the dispatcher does to a client whose channel is open.\<close>

definition offer :: "'m \<Rightarrow> 'm Client \<Rightarrow> 'm Client" where
  "offer message client =
     (if length (send client) < 256 then client\<lparr>send := send client @ [message]\<rparr>
      else client\<lparr>sendClosed := True, connClosed := True\<rparr>)"

section \<open>Edit scripts\<close>

text \<open>
  How a sequence of \<^verbatim>\<open>LineChange\<close> entries is read as an edit script, in the words of
  the specification: every \<^verbatim>\<open>removed\<close> entry deletes the line of the old sequence at its
  \<^verbatim>\<open>OldLine\<close> (numbered in the old sequence, from 1), and every \<^verbatim>\<open>added\<close> entry, taken
  in output order, inserts its text so that it stands at its \<^verbatim>\<open>NewLine\<close> (numbered in the
  new sequence, from 1).
\<close>

definition removedLines :: "LineChange list \<Rightarrow> nat list" where
  "removedLines cs = map OldLine (filter (\<lambda>c. Type c = ''removed'') cs)"

definition addedLines :: "LineChange list \<Rightarrow> nat list" where
  "addedLines cs = map NewLine (filter (\<lambda>c. Type c = ''added'') cs)"

definition deleteAt :: "nat set \<Rightarrow> string list \<Rightarrow> string list" where
  "deleteAt R ls = map snd (filter (\<lambda>(k, l). k \<notin> R) (zip [1..<Suc (length ls)] ls))"

definition deleteRemoved :: "LineChange list \<Rightarrow> string list \<Rightarrow> string list" where
  "deleteRemoved cs ls = deleteAt (set (removedLines cs)) ls"

definition insertAdded :: "LineChange \<Rightarrow> string list \<Rightarrow> string list" where
  "insertAdded c ls =
     (if Type c = ''added''
      then take (NewLine c - 1) ls @ [NewText c] @ drop (NewLine c - 1) ls
      else ls)"

definition applyEditScript :: "LineChange list \<Rightarrow> string list \<Rightarrow> string list" where
  "applyEditScript cs oldLines = fold insertAdded cs (deleteRemoved cs oldLines)"

text \<open>
  The 1-based position of the last empty line of a line sequence, \<open>0\<close> when no line is
  empty.
\<close>

definition lastEmpty :: "string list \<Rightarrow> nat" where
  "lastEmpty ls = length (dropWhile (\<lambda>l. l \<noteq> []) (rev ls))"

section \<open>Reading a file: what fails and what does not\<close>

text \<open>
  \<open>failed\<close>: the error of the triple is not \<^verbatim>\<open>nil\<close>. \<open>unreadable\<close>: the file cannot be
  opened, or \<^verbatim>\<open>Stat\<close> fails, or the size it reports is above 10 MiB, or reading the
  bytes ends with an error other than \<^verbatim>\<open>io.EOF\<close>.
\<close>

definition failed :: "string \<times> os_FileInfo option \<times> error option \<Rightarrow> bool" where
  "failed r = (snd (snd r) \<noteq> None)"

definition unreadable :: "filesystem \<Rightarrow> string \<Rightarrow> bool" where
  "unreadable fs filePath =
     (case fs filePath of
        Inl err \<Rightarrow> True
      | Inr file \<Rightarrow>
          (case Stat file of
             Inl err \<Rightarrow> True
           | Inr fileInfo \<Rightarrow>
               Size fileInfo > 10 * 1024 * 1024 \<or>
               (case ReadErr file of None \<Rightarrow> False | Some e \<Rightarrow> e \<noteq> EOF)))"

text \<open>
  Example inputs: a regular file of a given reported size, a directory (it can be opened
  and \<^verbatim>\<open>Stat\<close> succeeds, reading it fails), and a write event.
\<close>

definition regularFile :: "int \<Rightarrow> string \<Rightarrow> File" where
  "regularFile sz bytes =
     \<lparr>Stat = Inr \<lparr>Size = sz, ModTime = 0, IsDir = False\<rparr>, Bytes = bytes, ReadErr = None\<rparr>"

definition directory :: File where
  "directory =
     \<lparr>Stat = Inr \<lparr>Size = 4096, ModTime = 0, IsDir = True\<rparr>, Bytes = [],
      ReadErr = Some (SysError ''is a directory'')\<rparr>"

definition writeEvent :: "string \<Rightarrow> fsnotify_Event" where
  "writeEvent name = \<lparr>Name = name, OpBits = {Write}\<rparr>"

section \<open>Proof devices for the diff engine\<close>

text \<open>
  The length of a longest common subsequence of the first \<open>i\<close> old lines and the first
  \<open>j\<close> new lines, by the recurrence the table is filled with; \<open>filled\<close> says how far the
  two loops have got: every cell of a row before \<open>i\<close>, and of row \<open>i\<close> up to column \<open>j\<close>,
  holds that length.
\<close>

fun lcs :: "string list \<Rightarrow> string list \<Rightarrow> nat \<Rightarrow> nat \<Rightarrow> nat" where
  "lcs oldLines newLines 0 j = 0"
| "lcs oldLines newLines (Suc i) 0 = 0"
| "lcs oldLines newLines (Suc i) (Suc j) =
     (if oldLines ! i = newLines ! j then lcs oldLines newLines i j + 1
      else maxInt (lcs oldLines newLines i (Suc j)) (lcs oldLines newLines (Suc i) j))"

definition filled ::
  "string list \<Rightarrow> string list \<Rightarrow> nat \<Rightarrow> nat \<Rightarrow> nat \<Rightarrow> nat \<Rightarrow> nat list list \<Rightarrow> bool" where
  "filled oldLines newLines m n i j dp \<longleftrightarrow>
     length dp = m + 1 \<and> (\<forall>a \<le> m. length (dp ! a) = n + 1) \<and>
     (\<forall>a \<le> m. \<forall>b \<le> n. a < i \<or> (a = i \<and> b \<le> j) \<or> b = 0 \<longrightarrow>
        dp ! a ! b = lcs oldLines newLines a b)"

text \<open>
  The entries the backward walk produces between the cell \<open>(i, j)\<close> and the cell
  \<open>(0, 0)\<close>, in output order. The walk prepends, so the entry made at \<open>(i, j)\<close> is the
  last one.
\<close>

function walk ::
  "string list \<Rightarrow> string list \<Rightarrow> nat list list \<Rightarrow> nat \<Rightarrow> nat \<Rightarrow> LineChange list" where
  "walk oldLines newLines dp i j =
     (if i = 0 \<and> j = 0 then []
      else if i > 0 \<and> j > 0 \<and> oldLines ! (i - 1) = newLines ! (j - 1)
      then walk oldLines newLines dp (i - 1) (j - 1)
      else if j > 0 \<and> (i = 0 \<or> dp ! i ! (j - 1) \<ge> dp ! (i - 1) ! j)
      then walk oldLines newLines dp i (j - 1) @ [added j (newLines ! (j - 1))]
      else walk oldLines newLines dp (i - 1) j @ [removed i (oldLines ! (i - 1))])"
  by pat_completeness auto
termination
  by (relation "measure (\<lambda>(oldLines, newLines, dp, i, j). i + j)") auto

declare walk.simps [simp del]

section \<open>The backward walk returns\<close>

lemma backtrack_walk:
  "backtrack oldLines newLines dp i j changes = Some (walk oldLines newLines dp i j @ changes)"
proof (induction oldLines newLines dp i j arbitrary: changes rule: walk.induct)
  case (1 oldLines newLines dp i j)
  show ?case
  proof (cases "i = 0 \<and> j = 0")
    case True
    then show ?thesis
      by (subst backtrack.simps, subst walk.simps) simp
  next
    case False
    note nz = False
    show ?thesis
    proof (cases "i > 0 \<and> j > 0 \<and> oldLines ! (i - 1) = newLines ! (j - 1)")
      case True
      then show ?thesis
        using nz "1.IH"(1) [of changes]
        by (subst backtrack.simps, subst walk.simps) simp
    next
      case False
      note ne = False
      show ?thesis
      proof (cases "j > 0 \<and> (i = 0 \<or> dp ! i ! (j - 1) \<ge> dp ! (i - 1) ! j)")
        case True
        then show ?thesis
          using nz ne "1.IH"(2) [of "added j (newLines ! (j - 1)) # changes"]
          by (subst backtrack.simps, subst walk.simps) auto
      next
        case False
        then have c3: "i > 0 \<and> (j = 0 \<or> dp ! i ! (j - 1) < dp ! (i - 1) ! j)"
          using nz by auto
        show ?thesis
          using nz ne False c3 "1.IH"(3) [of "removed i (oldLines ! (i - 1)) # changes"]
          by (subst backtrack.simps, subst walk.simps) auto
      qed
    qed
  qed
qed
lemma walk_induct [case_names stop match add rem]:
  assumes stop: "P 0 0 []"
    and match: "\<And>i j. i > 0 \<Longrightarrow> j > 0 \<Longrightarrow> oldLines ! (i - 1) = newLines ! (j - 1) \<Longrightarrow>
        P (i - 1) (j - 1) (walk oldLines newLines dp (i - 1) (j - 1)) \<Longrightarrow>
        P i j (walk oldLines newLines dp (i - 1) (j - 1))"
    and add: "\<And>i j. j > 0 \<Longrightarrow> i = 0 \<or> oldLines ! (i - 1) \<noteq> newLines ! (j - 1) \<Longrightarrow>
        i = 0 \<or> dp ! i ! (j - 1) \<ge> dp ! (i - 1) ! j \<Longrightarrow>
        P i (j - 1) (walk oldLines newLines dp i (j - 1)) \<Longrightarrow>
        P i j (walk oldLines newLines dp i (j - 1) @ [added j (newLines ! (j - 1))])"
    and rem: "\<And>i j. i > 0 \<Longrightarrow> j = 0 \<or> oldLines ! (i - 1) \<noteq> newLines ! (j - 1) \<Longrightarrow>
        j = 0 \<or> dp ! i ! (j - 1) < dp ! (i - 1) ! j \<Longrightarrow>
        P (i - 1) j (walk oldLines newLines dp (i - 1) j) \<Longrightarrow>
        P i j (walk oldLines newLines dp (i - 1) j @ [removed i (oldLines ! (i - 1))])"
  shows "P i j (walk oldLines newLines dp i j)"
  using stop match add rem
proof (induction oldLines newLines dp i j rule: walk.induct)
  case (1 oldLines newLines dp i j)
  consider (a) "i = 0 \<and> j = 0"
    | (b) "i > 0 \<and> j > 0 \<and> oldLines ! (i - 1) = newLines ! (j - 1)"
    | (c) "\<not> (i > 0 \<and> j > 0 \<and> oldLines ! (i - 1) = newLines ! (j - 1))"
          "j > 0 \<and> (i = 0 \<or> dp ! i ! (j - 1) \<ge> dp ! (i - 1) ! j)"
    | (d) "\<not> (i = 0 \<and> j = 0)"
          "\<not> (i > 0 \<and> j > 0 \<and> oldLines ! (i - 1) = newLines ! (j - 1))"
          "\<not> (j > 0 \<and> (i = 0 \<or> dp ! i ! (j - 1) \<ge> dp ! (i - 1) ! j))"
    by blast
  then show ?case
  proof cases
    case a
    then show ?thesis using "1.prems"(1) by (subst walk.simps) simp
  next
    case b
    then have "walk oldLines newLines dp i j = walk oldLines newLines dp (i - 1) (j - 1)"
      by (subst walk.simps) simp
    moreover have "P (i - 1) (j - 1) (walk oldLines newLines dp (i - 1) (j - 1))"
      using b "1.IH"(1) "1.prems" by blast
    ultimately show ?thesis using "1.prems"(2) [of i j] b by metis
  next
    case c
    then have "walk oldLines newLines dp i j
        = walk oldLines newLines dp i (j - 1) @ [added j (newLines ! (j - 1))]"
      by (subst walk.simps) auto
    moreover have "P i (j - 1) (walk oldLines newLines dp i (j - 1))"
      using c "1.IH"(2) "1.prems" by blast
    moreover have "j > 0" "i = 0 \<or> oldLines ! (i - 1) \<noteq> newLines ! (j - 1)"
      "i = 0 \<or> dp ! i ! (j - 1) \<ge> dp ! (i - 1) ! j"
      using c by auto
    ultimately show ?thesis using "1.prems"(3) [of j i] by metis
  next
    case d
    then have "walk oldLines newLines dp i j
        = walk oldLines newLines dp (i - 1) j @ [removed i (oldLines ! (i - 1))]"
      by (subst walk.simps) auto
    moreover have "P (i - 1) j (walk oldLines newLines dp (i - 1) j)"
      using d "1.IH"(3) "1.prems" by blast
    moreover have "i > 0" "j = 0 \<or> oldLines ! (i - 1) \<noteq> newLines ! (j - 1)"
      "j = 0 \<or> dp ! i ! (j - 1) < dp ! (i - 1) ! j"
      using d by auto
    ultimately show ?thesis using "1.prems"(4) [of i j] by metis
  qed
qed

lemma removedLines_simps [simp]:
  "removedLines [] = []"
  "removedLines (cs @ [added j t]) = removedLines cs"
  "removedLines (cs @ [removed i t]) = removedLines cs @ [i]"
  by (simp_all add: removedLines_def added_def removed_def)

lemma addedLines_simps [simp]:
  "addedLines [] = []"
  "addedLines (cs @ [added j t]) = addedLines cs @ [j]"
  "addedLines (cs @ [removed i t]) = addedLines cs"
  by (simp_all add: addedLines_def added_def removed_def)

lemma walk_removed_bound:
  "\<forall>k \<in> set (removedLines (walk oldLines newLines dp i j)). 1 \<le> k \<and> k \<le> i"
  by (induction i j rule: walk_induct [of _ oldLines newLines dp]) fastforce+

lemma walk_added_bound:
  "\<forall>k \<in> set (addedLines (walk oldLines newLines dp i j)). 1 \<le> k \<and> k \<le> j"
  by (induction i j rule: walk_induct [of _ oldLines newLines dp]) fastforce+

lemma walk_removed_sorted:
  "sorted_wrt (<) (removedLines (walk oldLines newLines dp i j))"
proof (induction i j rule: walk_induct [of _ oldLines newLines dp])
  case (rem i j)
  then show ?case
    using walk_removed_bound [of oldLines newLines dp "i - 1" j]
    by (fastforce simp: sorted_wrt_append)
qed auto

lemma walk_added_sorted:
  "sorted_wrt (<) (addedLines (walk oldLines newLines dp i j))"
proof (induction i j rule: walk_induct [of _ oldLines newLines dp])
  case (add i j)
  then show ?case
    using walk_added_bound [of oldLines newLines dp i "j - 1"]
    by (fastforce simp: sorted_wrt_append)
qed auto


lemma deleteAt_snoc:
  "deleteAt R (xs @ [x]) = deleteAt R xs @ (if length xs + 1 \<in> R then [] else [x])"
proof -
  have "[1..<Suc (Suc (length xs))] = [1..<Suc (length xs)] @ [Suc (length xs)]"
    by simp
  then have "zip [1..<Suc (length (xs @ [x]))] (xs @ [x])
      = zip [1..<Suc (length xs)] xs @ [(Suc (length xs), x)]"
    by (simp del: upt_Suc)
  then show ?thesis
    by (simp add: deleteAt_def del: upt_Suc)
qed

lemma deleteAt_cong:
  assumes "\<And>k. 1 \<le> k \<Longrightarrow> k \<le> length xs \<Longrightarrow> (k \<in> R) = (k \<in> R')"
  shows "deleteAt R xs = deleteAt R' xs"
proof -
  have "filter (\<lambda>(k, l). k \<notin> R) (zip [1..<Suc (length xs)] xs)
      = filter (\<lambda>(k, l). k \<notin> R') (zip [1..<Suc (length xs)] xs)"
  proof (rule filter_cong [OF refl])
    fix p assume "p \<in> set (zip [1..<Suc (length xs)] xs)"
    then have "fst p \<in> set [1..<Suc (length xs)]"
      by (metis prod.collapse set_zip_leftD)
    then have "1 \<le> fst p \<and> fst p \<le> length xs"
      by (simp del: upt_Suc)
    then show "(case p of (k, l) \<Rightarrow> k \<notin> R) = (case p of (k, l) \<Rightarrow> k \<notin> R')"
      using assms [of "fst p"] by (simp add: case_prod_beta)
  qed
  then show ?thesis by (simp add: deleteAt_def del: upt_Suc)
qed

lemma take_snoc_nth: "0 < k \<Longrightarrow> k \<le> length xs \<Longrightarrow> take k xs = take (k - 1) xs @ [xs ! (k - 1)]"
  by (cases k) (simp_all add: take_Suc_conv_app_nth)

lemma fold_insertAdded_snoc:
  "fold insertAdded (cs @ [c]) ls = insertAdded c (fold insertAdded cs ls)"
  by simp

lemma walk_apply:
  "i \<le> length oldLines \<longrightarrow> j \<le> length newLines \<longrightarrow>
   (\<forall>suffix. fold insertAdded (walk oldLines newLines dp i j)
       (deleteRemoved (walk oldLines newLines dp i j) (take i oldLines) @ suffix)
     = take j newLines @ suffix)"
proof (induction i j rule: walk_induct [of _ oldLines newLines dp])
  case stop
  show ?case by (simp add: deleteRemoved_def deleteAt_def)
next
  case (match i j)
  show ?case
  proof (intro impI allI)
    fix suffix
    assume i: "i \<le> length oldLines" and j: "j \<le> length newLines"
    let ?es = "walk oldLines newLines dp (i - 1) (j - 1)"
    have notin: "i \<notin> set (removedLines ?es)"
      using walk_removed_bound [of oldLines newLines dp "i - 1" "j - 1"] match(1) by fastforce
    have "deleteRemoved ?es (take i oldLines)
        = deleteRemoved ?es (take (i - 1) oldLines) @ [oldLines ! (i - 1)]"
      using notin match(1) i
      by (simp add: deleteRemoved_def take_snoc_nth [of i oldLines] deleteAt_snoc)
    moreover have "fold insertAdded ?es
        (deleteRemoved ?es (take (i - 1) oldLines) @ (oldLines ! (i - 1) # suffix))
        = take (j - 1) newLines @ (oldLines ! (i - 1) # suffix)"
      using match(4) i j by simp
    ultimately show "fold insertAdded ?es (deleteRemoved ?es (take i oldLines) @ suffix)
        = take j newLines @ suffix"
      using match(2,3) j by (simp add: take_snoc_nth [of j newLines])
  qed
next
  case (add i j)
  show ?case
  proof (intro impI allI)
    fix suffix
    assume i: "i \<le> length oldLines" and j: "j \<le> length newLines"
    let ?es = "walk oldLines newLines dp i (j - 1)"
    let ?a = "added j (newLines ! (j - 1))"
    have "deleteRemoved (?es @ [?a]) (take i oldLines) = deleteRemoved ?es (take i oldLines)"
      by (simp add: deleteRemoved_def)
    moreover have "fold insertAdded ?es (deleteRemoved ?es (take i oldLines) @ suffix)
        = take (j - 1) newLines @ suffix"
      using add(4) i j by simp
    moreover have "insertAdded ?a (take (j - 1) newLines @ suffix) = take j newLines @ suffix"
      using add(1) j by (simp add: insertAdded_def added_def take_snoc_nth [of j newLines])
    ultimately show "fold insertAdded (?es @ [?a])
        (deleteRemoved (?es @ [?a]) (take i oldLines) @ suffix) = take j newLines @ suffix"
      by simp
  qed
next
  case (rem i j)
  show ?case
  proof (intro impI allI)
    fix suffix
    assume i: "i \<le> length oldLines" and j: "j \<le> length newLines"
    let ?es = "walk oldLines newLines dp (i - 1) j"
    let ?r = "removed i (oldLines ! (i - 1))"
    have "deleteRemoved (?es @ [?r]) (take i oldLines)
        = deleteRemoved (?es @ [?r]) (take (i - 1) oldLines)"
      using rem(1) i
      by (simp add: deleteRemoved_def take_snoc_nth [of i oldLines] deleteAt_snoc)
    also have "\<dots> = deleteRemoved ?es (take (i - 1) oldLines)"
      unfolding deleteRemoved_def
      by (rule deleteAt_cong) (use rem(1) i in auto)
    finally have "deleteRemoved (?es @ [?r]) (take i oldLines)
        = deleteRemoved ?es (take (i - 1) oldLines)" .
    moreover have "fold insertAdded ?es (deleteRemoved ?es (take (i - 1) oldLines) @ suffix)
        = take j newLines @ suffix"
      using rem(4) i j by simp
    moreover have "insertAdded ?r (take j newLines @ suffix) = take j newLines @ suffix"
      by (simp add: insertAdded_def removed_def)
    ultimately show "fold insertAdded (?es @ [?r])
        (deleteRemoved (?es @ [?r]) (take i oldLines) @ suffix) = take j newLines @ suffix"
      by simp
  qed
qed

lemma diffLines_walk:
  "diffLines oldLines newLines = Some (walk oldLines newLines
     (fillTable oldLines newLines (length oldLines) (length newLines))
     (length oldLines) (length newLines))"
  by (simp add: diffLines_def Let_def backtrack_walk)

section \<open>The table holds the lengths of the longest common subsequences\<close>

lemma lcs_col0 [simp]: "lcs oldLines newLines i 0 = 0"
  by (cases i) simp_all

lemma lcs_step:
  "0 < i \<Longrightarrow> 0 < j \<Longrightarrow> lcs oldLines newLines i j =
     (if oldLines ! (i - 1) = newLines ! (j - 1) then lcs oldLines newLines (i - 1) (j - 1) + 1
      else maxInt (lcs oldLines newLines (i - 1) j) (lcs oldLines newLines i (j - 1)))"
  by (cases i; cases j) simp_all

lemma newTable_nth:
  "length (newTable m n) = m + 1"
  "a \<le> m \<Longrightarrow> length (newTable m n ! a) = n + 1"
  "a \<le> m \<Longrightarrow> b \<le> n \<Longrightarrow> newTable m n ! a ! b = 0"
  by (simp_all add: newTable_def del: replicate.simps)

lemma filled_init: "filled oldLines newLines m n 1 0 (newTable m n)"
  unfolding filled_def
proof (intro conjI allI impI)
  fix a b assume "a \<le> m" "b \<le> n" "a < 1 \<or> a = 1 \<and> b \<le> 0 \<or> b = 0"
  then show "newTable m n ! a ! b = lcs oldLines newLines a b"
    by (auto simp: newTable_nth)
qed (simp_all add: newTable_nth)

lemma filled_cell:
  assumes "filled oldLines newLines m n i (j - 1) dp" "0 < i" "i \<le> m" "0 < j" "j \<le> n"
  shows "filled oldLines newLines m n i j (fillCell oldLines newLines i j dp)"
proof -
  let ?v = "if oldLines ! (i - 1) = newLines ! (j - 1) then dp ! (i - 1) ! (j - 1) + 1
            else maxInt (dp ! (i - 1) ! j) (dp ! i ! (j - 1))"
  have fc: "fillCell oldLines newLines i j dp = dp[i := (dp ! i)[j := ?v]]"
    by (simp add: fillCell_def)
  have len: "length dp = m + 1" and rows: "\<And>a. a \<le> m \<Longrightarrow> length (dp ! a) = n + 1"
    using assms(1) unfolding filled_def by blast+
  have vals: "dp ! a ! b = lcs oldLines newLines a b"
    if "a \<le> m" "b \<le> n" "a < i \<or> (a = i \<and> b \<le> j - 1) \<or> b = 0" for a b
    using assms(1) that unfolding filled_def by blast
  have v: "?v = lcs oldLines newLines i j"
    using assms(2-5) vals [of "i - 1" "j - 1"] vals [of "i - 1" j] vals [of i "j - 1"]
    by (simp add: lcs_step)
  show ?thesis
    unfolding filled_def fc
  proof (intro conjI allI impI)
    show "length (dp[i := (dp ! i)[j := ?v]]) = m + 1" using len by simp
  next
    fix a assume "a \<le> m"
    then show "length (dp[i := (dp ! i)[j := ?v]] ! a) = n + 1"
      using len rows by (cases "a = i") simp_all
  next
    fix a b assume a: "a \<le> m" and b: "b \<le> n" and r: "a < i \<or> a = i \<and> b \<le> j \<or> b = 0"
    show "dp[i := (dp ! i)[j := ?v]] ! a ! b = lcs oldLines newLines a b"
    proof (cases "a = i \<and> b = j")
      case True
      then show ?thesis using len rows [of i] assms(3,5) v by simp
    next
      case False
      then have "dp[i := (dp ! i)[j := ?v]] ! a ! b = dp ! a ! b"
        using len a by (cases "a = i") simp_all
      moreover have "a < i \<or> (a = i \<and> b \<le> j - 1) \<or> b = 0"
        using r False by auto
      ultimately show ?thesis using vals [OF a b] by simp
    qed
  qed
qed

lemma filled_row_upto:
  assumes "filled oldLines newLines m n i 0 dp" "0 < i" "i \<le> m"
  shows "k \<le> n \<Longrightarrow>
    filled oldLines newLines m n i k (fold (fillCell oldLines newLines i) [1..<Suc k] dp)"
proof (induction k)
  case 0
  then show ?case using assms(1) by simp
next
  case (Suc k)
  then have "filled oldLines newLines m n i (Suc k - 1)
      (fold (fillCell oldLines newLines i) [1..<Suc k] dp)"
    by simp
  from filled_cell [OF this assms(2,3)] Suc.prems
  show ?case by simp
qed

lemma filled_next:
  "filled oldLines newLines m n i n dp \<Longrightarrow> filled oldLines newLines m n (Suc i) 0 dp"
  unfolding filled_def by (auto simp: less_Suc_eq)

lemma filled_table_upto:
  "k \<le> m \<Longrightarrow> filled oldLines newLines m n (Suc k) 0
     (fold (fillRow oldLines newLines n) [1..<Suc k] (newTable m n))"
proof (induction k)
  case 0
  then show ?case using filled_init [of oldLines newLines m n] by simp
next
  case (Suc k)
  then have "filled oldLines newLines m n (Suc k) 0
      (fold (fillRow oldLines newLines n) [1..<Suc k] (newTable m n))"
    by simp
  then have "filled oldLines newLines m n (Suc k) n
      (fillRow oldLines newLines n (Suc k)
         (fold (fillRow oldLines newLines n) [1..<Suc k] (newTable m n)))"
    using filled_row_upto [of oldLines newLines m n "Suc k" _ n] Suc.prems
    by (simp add: fillRow_def)
  then show ?case
    by (simp add: filled_next)
qed

lemma fillTable_lcs:
  "i \<le> m \<Longrightarrow> j \<le> n \<Longrightarrow> fillTable oldLines newLines m n ! i ! j = lcs oldLines newLines i j"
  using filled_table_upto [of m m oldLines newLines n]
  unfolding filled_def fillTable_def by simp

section \<open>Diffs against the empty text\<close>

lemma lastEmpty_Nil [simp]: "lastEmpty [] = 0"
  by (simp add: lastEmpty_def)

lemma lastEmpty_snoc [simp]:
  "lastEmpty (xs @ [x]) = (if x = [] then length xs + 1 else lastEmpty xs)"
  by (simp add: lastEmpty_def)

lemma lastEmpty_le: "lastEmpty xs \<le> length xs"
  unfolding lastEmpty_def
  by (metis length_dropWhile_le length_rev)

lemma lastEmpty_0_iff: "lastEmpty xs = 0 \<longleftrightarrow> [] \<notin> set xs"
  by (induction xs rule: rev_induct) auto

lemma walk_row0:
  "walk oldLines newLines dp 0 j = map (\<lambda>k. added k (newLines ! (k - 1))) [1..<Suc j]"
proof (induction j)
  case 0
  show ?case by (subst walk.simps) simp
next
  case (Suc j)
  have "walk oldLines newLines dp 0 (Suc j)
      = walk oldLines newLines dp 0 j @ [added (Suc j) (newLines ! j)]"
    by (subst walk.simps) simp
  then show ?case using Suc by simp
qed

lemma walk_col0:
  "walk oldLines newLines dp i 0 = map (\<lambda>k. removed k (oldLines ! (k - 1))) [1..<Suc i]"
proof (induction i)
  case 0
  show ?case by (subst walk.simps) simp
next
  case (Suc i)
  have "walk oldLines newLines dp (Suc i) 0
      = walk oldLines newLines dp i 0 @ [removed (Suc i) (oldLines ! i)]"
    by (subst walk.simps) simp
  then show ?case using Suc by simp
qed

lemma filter_neq_upt:
  "p \<le> k \<Longrightarrow> filter (\<lambda>x. x \<noteq> p) [Suc 0..<Suc (Suc k)]
     = filter (\<lambda>x. x \<noteq> p) [Suc 0..<Suc k] @ [Suc k]"
  "filter (\<lambda>x. x \<noteq> Suc k) [Suc 0..<Suc (Suc k)] = [Suc 0..<Suc k]"
  "filter (\<lambda>x. x \<noteq> 0) [Suc 0..<Suc k] = [Suc 0..<Suc k]"
  by (auto simp del: upt_Suc simp add: upt_Suc_append filter_id_conv)

lemma walk_empty_old:
  assumes "\<And>b. b \<le> length newLines \<Longrightarrow> dp ! 0 ! b = 0"
  shows "j \<le> length newLines \<Longrightarrow>
    walk [[]] newLines dp 1 j =
      (if lastEmpty (take j newLines) = 0 then [removed 1 []] else []) @
      map (\<lambda>k. added k (newLines ! (k - 1)))
        (filter (\<lambda>k. k \<noteq> lastEmpty (take j newLines)) [1..<Suc j])"
proof (induction j)
  case 0
  have "walk [[]] newLines dp 1 0 = walk [[]] newLines dp 0 0 @ [removed 1 []]"
    by (subst walk.simps) simp
  then show ?case by (simp add: walk_row0)
next
  case (Suc j)
  then have j: "j < length newLines" by simp
  have tk: "take (Suc j) newLines = take j newLines @ [newLines ! j]"
    using j by (simp add: take_Suc_conv_app_nth)
  show ?case
  proof (cases "newLines ! j = []")
    case True
    then have "walk [[]] newLines dp 1 (Suc j) = walk [[]] newLines dp 0 j"
      by (subst walk.simps) simp
    then show ?thesis
      using True j by (simp add: tk walk_row0 filter_neq_upt del: upt_Suc)
  next
    case False
    have "dp ! 0 ! Suc j = 0" using assms [of "Suc j"] j by simp
    then have "walk [[]] newLines dp 1 (Suc j)
        = walk [[]] newLines dp 1 j @ [added (Suc j) (newLines ! j)]"
      using False by (subst walk.simps) auto
    moreover have "lastEmpty (take j newLines) \<le> j"
      using lastEmpty_le [of "take j newLines"] by simp
    ultimately show ?thesis
      using False j Suc.IH by (simp add: tk filter_neq_upt del: upt_Suc)
  qed
qed

lemma lcs_empty_new:
  "i \<le> length oldLines \<Longrightarrow>
   lcs oldLines [[]] i 1 = (if lastEmpty (take i oldLines) = 0 then 0 else 1)"
proof (induction i)
  case 0
  show ?case by simp
next
  case (Suc i)
  then have i: "i < length oldLines" by simp
  have tk: "take (Suc i) oldLines = take i oldLines @ [oldLines ! i]"
    using i by (simp add: take_Suc_conv_app_nth)
  have "lcs oldLines [[]] (Suc i) (Suc 0) =
      (if oldLines ! i = [] then 1 else lcs oldLines [[]] i (Suc 0))"
    by (simp add: maxInt_def)
  then show ?case using Suc.IH i by (simp add: tk)
qed

lemma walk_empty_new:
  assumes "\<And>a b. a \<le> length oldLines \<Longrightarrow> b \<le> 1 \<Longrightarrow> dp ! a ! b = lcs oldLines [[]] a b"
  shows "i \<le> length oldLines \<Longrightarrow>
    walk oldLines [[]] dp i 1 =
      map (\<lambda>k. removed k (oldLines ! (k - 1)))
        (filter (\<lambda>k. k \<noteq> lastEmpty (take i oldLines)) [1..<Suc i]) @
      (if lastEmpty (take i oldLines) = 0 then [added 1 []] else [])"
proof (induction i)
  case 0
  have "walk oldLines [[]] dp 0 1 = walk oldLines [[]] dp 0 0 @ [added 1 []]"
    by (subst walk.simps) simp
  then show ?case by (simp add: walk_col0)
next
  case (Suc i)
  then have i: "i < length oldLines" by simp
  have tk: "take (Suc i) oldLines = take i oldLines @ [oldLines ! i]"
    using i by (simp add: take_Suc_conv_app_nth)
  show ?case
  proof (cases "oldLines ! i = []")
    case True
    then have "walk oldLines [[]] dp (Suc i) 1 = walk oldLines [[]] dp i 0"
      by (subst walk.simps) simp
    then show ?thesis
      using True i by (simp add: tk walk_col0 filter_neq_upt del: upt_Suc)
  next
    case False
    note ne = False
    have d0: "dp ! Suc i ! 0 = 0" using assms [of "Suc i" 0] i by simp
    have d1: "dp ! i ! 1 = (if lastEmpty (take i oldLines) = 0 then 0 else 1)"
      using assms [of i 1] i lcs_empty_new [of i oldLines] by simp
    show ?thesis
    proof (cases "lastEmpty (take i oldLines) = 0")
      case True
      then have "walk oldLines [[]] dp (Suc i) 1
          = walk oldLines [[]] dp (Suc i) 0 @ [added 1 []]"
        using ne d0 d1 by (subst walk.simps) simp
      then show ?thesis
        using True ne by (simp add: tk walk_col0 filter_neq_upt del: upt_Suc)
    next
      case False
      then have "walk oldLines [[]] dp (Suc i) 1
          = walk oldLines [[]] dp i 1 @ [removed (Suc i) (oldLines ! i)]"
        using ne d0 d1 by (subst walk.simps) simp
      moreover have "lastEmpty (take i oldLines) \<le> i"
        using lastEmpty_le [of "take i oldLines"] by simp
      ultimately show ?thesis
        using False ne i Suc.IH by (simp add: tk filter_neq_upt del: upt_Suc)
    qed
  qed
qed

lemma Split_Nil: "Split [] sep = [[]]"
  by simp

section \<open>Reading files and handling write events\<close>

lemma compareLines_returns:
  "\<exists>cs. compareLines oldContent newContent = Some cs"
  by (simp add: compareLines_def diffLines_walk)

lemma readLoop_all:
  "readLoop fl unread buffer =
     (case ReadErr fl of
        None \<Rightarrow> Inr (buffer @ unread)
      | Some e \<Rightarrow> if e = EOF then Inr (buffer @ unread) else Inl e)"
proof (induction fl unread buffer rule: readLoop.induct)
  case (1 fl unread buffer)
  show ?case
  proof (cases "dropWhile (\<lambda>c. c \<noteq> nl) unread")
    case Nil
    have "ReadString fl unread nl
        = ((unread, Some (case ReadErr fl of None \<Rightarrow> EOF | Some e \<Rightarrow> e)), [])"
      unfolding ReadString_def Nil by simp
    then show ?thesis
      by (subst readLoop.simps) (simp split: option.splits)
  next
    case (Cons d rest)
    have rs: "ReadString fl unread nl
        = ((takeWhile (\<lambda>c. c \<noteq> nl) unread @ [d], None), rest)"
      unfolding ReadString_def Cons by simp
    have "takeWhile (\<lambda>c. c \<noteq> nl) unread @ d # rest = unread"
      using Cons by (metis takeWhile_dropWhile_id)
    then show ?thesis
      using "1.IH" [OF rs [symmetric] refl refl] rs
      by (subst readLoop.simps) (simp split: option.splits)
  qed
qed

lemma readLoop_eq_ReadAll: "readLoop fl (Bytes fl) [] = ReadAll fl"
  by (simp add: readLoop_all ReadAll_def split: option.splits)

lemma failed_iff_unreadable:
  "failed (FileWatcher_readFileContent fs filePath) = unreadable fs filePath"
  "failed (readFileContent fs filePath) = unreadable fs filePath"
  by (auto simp: failed_def unreadable_def FileWatcher_readFileContent_def readFileContent_def
      readLoop_eq_ReadAll ReadAll_def maxSize_def split: sum.splits option.splits)

lemma read_ok:
  assumes "fs filePath = Inr fl" "Stat fl = Inr fileInfo" "Size fileInfo \<le> 10 * 1024 * 1024"
    "ReadErr fl = None"
  shows "FileWatcher_readFileContent fs filePath = (Bytes fl, Some fileInfo, None)"
    "readFileContent fs filePath = (Bytes fl, Some fileInfo, None)"
  using assms
  by (simp_all add: FileWatcher_readFileContent_def readFileContent_def
      readLoop_eq_ReadAll ReadAll_def maxSize_def)

lemma handleFileChange_failed:
  "failed (FileWatcher_readFileContent fs filePath) \<Longrightarrow>
   handleFileChange fs fw filePath callback = Some (fw, [])"
  by (auto simp: failed_def handleFileChange_def split: prod.splits option.splits)

lemma handleFileChange_ok:
  assumes "FileWatcher_readFileContent fs filePath = (newContent, fileInfo, None)"
  shows "\<exists>changes. compareLines (cacheGet fw filePath) newContent = Some changes \<and>
     handleFileChange fs fw filePath callback =
       Some (fw\<lparr>fileCache := (fileCache fw)(filePath \<mapsto> newContent)\<rparr>,
             if callback
             then [\<lparr>Path = filePath, Op = ''modified'', Content = newContent,
                    PrevContent = cacheGet fw filePath, LineChanges = Some changes,
                    FileInfo = fileInfo\<rparr>]
             else [])"
proof -
  obtain changes where c: "compareLines (cacheGet fw filePath) newContent = Some changes"
    using compareLines_returns by blast
  show ?thesis
    using assms c by (simp add: handleFileChange_def Let_def)
qed

lemma WatchDirectory_event_failed:
  "failed (readFileContent fs (Name event)) \<Longrightarrow> Has event Write \<Longrightarrow>
   WatchDirectory_event fs event callback = []"
  by (auto simp: failed_def WatchDirectory_event_def WatchDirectory_op_def
      split: prod.splits option.splits)

section \<open>The message handler and the dispatcher\<close>

lemma unknown_type_is_rejected:
  assumes "MsgType msg \<noteq> ''get_info''" "MsgType msg \<noteq> ''get_file_content''"
    "MsgType msg \<noteq> ''ping''"
  shows "onSocketMessage watchPath fs (Inr msg) = Return (Inl (UnknownType (MsgType msg)))"
    and "handleClientRead_message (onSocketMessage watchPath fs) (Inr msg) c s = Return s"
  using assms by (simp_all add: onSocketMessage_def handleClientRead_message_def)

lemma DecodeRuneInString_ascii:
  "of_char c < (128 :: nat) \<Longrightarrow> DecodeRuneInString (c # cs) = Some 1"
  by (simp add: DecodeRuneInString_def byteAt_def)

lemma validUTF8_ascii:
  "\<forall>c \<in> set s. of_char c < (128 :: nat) \<Longrightarrow> validUTF8 s = s"
  unfolding validUTF8_def
  by (induction s) (simp_all add: DecodeRuneInString_ascii)

lemma validUTF8_examples:
  "validUTF8 ''access.log'' = ''access.log''"
  "validUTF8 [CHR 0x66, CHR 0xFF] = [CHR 0x66, CHR 0xEF, CHR 0xBF, CHR 0xBD]"
  "validUTF8 [CHR 0xC3, CHR 0xA9] = [CHR 0xC3, CHR 0xA9]"
  "validUTF8 [CHR 0xC3, CHR 0x28] = [CHR 0xEF, CHR 0xBF, CHR 0xBD, CHR 0x28]"
  "validUTF8 [CHR 0xEF, CHR 0xBF, CHR 0xBD] = [CHR 0xEF, CHR 0xBF, CHR 0xBD]"
  "validUTF8 [CHR 0xED, CHR 0xA0, CHR 0x80]
     = [CHR 0xEF, CHR 0xBF, CHR 0xBD, CHR 0xEF, CHR 0xBF, CHR 0xBD, CHR 0xEF, CHR 0xBF, CHR 0xBD]"
  by code_simp+

lemma BroadcastMessages_client_open:
  "\<not> sendClosed (heap s c) \<Longrightarrow>
   BroadcastMessages_client message c s =
     Return (s\<lparr>clients := (if length (send (heap s c)) < 256 then clients s else clients s - {c}),
              heap := (heap s)(c := offer message (heap s c))\<rparr>)"
  by (simp add: BroadcastMessages_client_def offer_def sendCap_def Let_def)

lemma BroadcastMessages_range_open:
  "distinct order \<Longrightarrow> \<forall>c \<in> set order. \<not> sendClosed (heap s c) \<Longrightarrow>
   BroadcastMessages_range message order s =
     Return (s\<lparr>clients := clients s - {c \<in> set order. \<not> length (send (heap s c)) < 256},
              heap := (\<lambda>c. if c \<in> set order then offer message (heap s c) else heap s c)\<rparr>)"
proof (induction order arbitrary: s)
  case Nil
  show ?case by simp
next
  case (Cons c cs)
  let ?s = "s\<lparr>clients := (if length (send (heap s c)) < 256 then clients s else clients s - {c}),
              heap := (heap s)(c := offer message (heap s c))\<rparr>"
  have step: "BroadcastMessages_client message c s = Return ?s"
    using Cons.prems(2) by (simp add: BroadcastMessages_client_open)
  have c: "c \<notin> set cs" and d: "distinct cs"
    using Cons.prems(1) by simp_all
  have same: "heap ?s x = heap s x" if "x \<in> set cs" for x
    using that c by auto
  have "\<forall>x \<in> set cs. \<not> sendClosed (heap ?s x)"
    using Cons.prems(2) same by simp
  from Cons.IH [OF d this]
  have "BroadcastMessages_range message cs ?s =
     Return (?s\<lparr>clients := clients ?s - {x \<in> set cs. \<not> length (send (heap ?s x)) < 256},
              heap := (\<lambda>x. if x \<in> set cs then offer message (heap ?s x) else heap ?s x)\<rparr>)" .
  moreover have "clients ?s - {x \<in> set cs. \<not> length (send (heap ?s x)) < 256}
      = clients s - {x \<in> set (c # cs). \<not> length (send (heap s x)) < 256}"
    using c by auto
  moreover have "(\<lambda>x. if x \<in> set cs then offer message (heap ?s x) else heap ?s x)
      = (\<lambda>x. if x \<in> set (c # cs) then offer message (heap s x) else heap s x)"
    using c by (auto simp: fun_eq_iff)
  ultimately show ?case
    using step by simp
qed

lemma registryOpen_HandleWebSocket:
  "registryOpen s \<Longrightarrow> registryOpen (HandleWebSocket c s)"
  by (simp add: registryOpen_def HandleWebSocket_def)

lemma registryOpen_handleClientRead_deferred:
  "registryOpen s \<Longrightarrow> handleClientRead_deferred c s = Return s' \<Longrightarrow> registryOpen s'"
  by (auto simp: registryOpen_def handleClientRead_deferred_def Let_def split: if_splits)

lemma registryOpen_BroadcastMessages_client:
  "registryOpen s \<Longrightarrow> c \<in> clients s \<Longrightarrow>
   \<exists>s'. BroadcastMessages_client message c s = Return s' \<and> registryOpen s'"
  by (auto simp: registryOpen_def BroadcastMessages_client_def Let_def)

section \<open>The claims about the diff engine\<close>

text \<open>
  C4. For every two line sequences, and so for every two texts, \<^verbatim>\<open>compareLines\<close> returns,
  and its result applied as an edit script to the old line sequence gives the new line
  sequence.
\<close>

theorem edit_script_reconstructs:
  "(\<exists>cs. diffLines oldLines newLines = Some cs \<and> applyEditScript cs oldLines = newLines) \<and>
   (\<exists>cs. compareLines oldContent newContent = Some cs \<and>
      applyEditScript cs (Split oldContent nl) = Split newContent nl)"
proof -
  have "applyEditScript (walk ol nw dp (length ol) (length nw)) ol = nw" for ol nw dp
    using walk_apply [of "length ol" ol "length nw" nw dp]
    by (simp add: applyEditScript_def) (metis append_Nil2)
  then show ?thesis
    by (simp add: compareLines_def diffLines_walk)
qed

text \<open>
  C7, as stated, fails: the empty text is split into one empty line, not into no line.
  Against the one-line text \<^verbatim>\<open>a\<close> that empty line is reported as removed, so the
  result holds an entry that is not \<^verbatim>\<open>added\<close>; against \<^verbatim>\<open>a\n\<close>, whose second line
  is empty, the empty line is matched, so the second line of the two has no entry.
\<close>

theorem compareLines_empty_old_counterexample:
  "Split ''a'' nl = [''a''] \<and>
   compareLines '''' ''a'' = Some [removed 1 '''', added 1 ''a''] \<and>
   compareLines '''' ''a'' \<noteq> Some [added 1 ''a''] \<and>
   Split (''a'' @ [nl]) nl = [''a'', ''''] \<and>
   compareLines '''' (''a'' @ [nl]) = Some [added 1 ''a''] \<and>
   compareLines '''' (''a'' @ [nl]) \<noteq> Some [added 1 ''a'', added 2 '''']"
  by code_simp

text \<open>
  C7, amended. With \<open>ls\<close> the lines of \<open>T\<close>: \<^verbatim>\<open>compareLines("", T)\<close> is one \<^verbatim>\<open>added\<close>
  entry for every line of \<open>T\<close> at its 1-based position, in order, except the last empty
  line of \<open>T\<close> when there is one; when no line of \<open>T\<close> is empty, these entries come after
  one \<^verbatim>\<open>removed\<close> entry for the empty line of the old text. \<^verbatim>\<open>compareLines(T, "")\<close>
  is the same with \<^verbatim>\<open>removed\<close> entries, an \<^verbatim>\<open>added\<close> entry for the empty line of the
  new text coming last when no line of \<open>T\<close> is empty.
\<close>

theorem compareLines_against_empty:
  "compareLines [] T =
     Some ((if [] \<in> set (Split T nl) then [] else [removed 1 []]) @
           map (\<lambda>k. added k (Split T nl ! (k - 1)))
             (filter (\<lambda>k. k \<noteq> lastEmpty (Split T nl)) [1..<Suc (length (Split T nl))]))
   \<and> compareLines T [] =
     Some (map (\<lambda>k. removed k (Split T nl ! (k - 1)))
             (filter (\<lambda>k. k \<noteq> lastEmpty (Split T nl)) [1..<Suc (length (Split T nl))]) @
           (if [] \<in> set (Split T nl) then [] else [added 1 []]))"
proof -
  let ?ls = "Split T nl"
  let ?n = "length ?ls"
  have a: "fillTable [[]] ?ls 1 ?n ! 0 ! b = 0" if "b \<le> ?n" for b
    using that by (simp add: fillTable_lcs)
  have b: "fillTable ?ls [[]] ?n 1 ! a ! b = lcs ?ls [[]] a b" if "a \<le> ?n" "b \<le> 1" for a b
    using that by (simp add: fillTable_lcs)
  have "compareLines [] T = Some (walk [[]] ?ls (fillTable [[]] ?ls 1 ?n) 1 ?n)"
    by (simp add: compareLines_def diffLines_walk)
  moreover have "compareLines T [] = Some (walk ?ls [[]] (fillTable ?ls [[]] ?n 1) ?n 1)"
    by (simp add: compareLines_def diffLines_walk)
  ultimately show ?thesis
    using walk_empty_old [of ?ls "fillTable [[]] ?ls 1 ?n" ?n, OF a]
      walk_empty_new [of ?ls "fillTable ?ls [[]] ?n 1" ?n, OF b]
    by (simp add: lastEmpty_0_iff del: upt_Suc)
qed

text \<open>
  C8. The texts \<^verbatim>\<open>a\nb\nc\<close> and \<^verbatim>\<open>a\nx\nc\<close> have the lines \<^verbatim>\<open>a, b, c\<close> and
  \<^verbatim>\<open>a, x, c\<close>; their diff is the removal of old line 2 followed by the addition of new
  line 2, and nothing for lines 1 and 3.
\<close>

theorem compareLines_substitution_example:
  "Split (''a'' @ [nl] @ ''b'' @ [nl] @ ''c'') nl = [''a'', ''b'', ''c''] \<and>
   Split (''a'' @ [nl] @ ''x'' @ [nl] @ ''c'') nl = [''a'', ''x'', ''c''] \<and>
   diffLines [''a'', ''b'', ''c''] [''a'', ''x'', ''c''] = Some [removed 2 ''b'', added 2 ''x''] \<and>
   compareLines (''a'' @ [nl] @ ''b'' @ [nl] @ ''c'') (''a'' @ [nl] @ ''x'' @ [nl] @ ''c'')
     = Some [removed 2 ''b'', added 2 ''x'']"
  by code_simp

text \<open>
  C9. In the result of \<^verbatim>\<open>compareLines\<close>, read in output order, the old line numbers of
  the \<^verbatim>\<open>removed\<close> entries never decrease, and neither do the new line numbers of the
  \<^verbatim>\<open>added\<close> entries.
\<close>

theorem compareLines_monotonic:
  "\<exists>cs. compareLines oldContent newContent = Some cs \<and>
     sorted (removedLines cs) \<and> sorted (addedLines cs)"
  by (simp add: compareLines_def diffLines_walk
      strict_sorted_imp_sorted walk_removed_sorted walk_added_sorted)

section \<open>The claims about the watchers\<close>

text \<open>
  C2, as stated, fails for directory mode: \<^verbatim>\<open>WatchDirectory\<close> has no cache and never calls
  \<^verbatim>\<open>compareLines\<close>. Two write events for a file, its content first \<^verbatim>\<open>x\<close> and then
  \<^verbatim>\<open>y\<close>: the record of the second has no line changes and an empty previous content,
  where the diff of the two contents has two entries.
\<close>

theorem directory_write_has_no_diff_counterexample:
  "WatchDirectory_event (oneFile ''f'' (regularFile 1 ''x'')) (writeEvent ''f'') True
     = [\<lparr>Path = ''f'', Op = ''modified'', Content = ''x'', PrevContent = '''',
         LineChanges = None, FileInfo = Some \<lparr>Size = 1, ModTime = 0, IsDir = False\<rparr>\<rparr>] \<and>
   WatchDirectory_event (oneFile ''f'' (regularFile 1 ''y'')) (writeEvent ''f'') True
     = [\<lparr>Path = ''f'', Op = ''modified'', Content = ''y'', PrevContent = '''',
         LineChanges = None, FileInfo = Some \<lparr>Size = 1, ModTime = 0, IsDir = False\<rparr>\<rparr>] \<and>
   compareLines ''x'' ''y'' = Some [removed 1 ''x'', added 1 ''y''] \<and>
   compareLines '''' ''y'' = Some [removed 1 '''', added 1 ''y'']"
proof -
  have "compareLines ''x'' ''y'' = Some [removed 1 ''x'', added 1 ''y'']"
    by code_simp
  moreover have "compareLines '''' ''y'' = Some [removed 1 '''', added 1 ''y'']"
    by code_simp
  ultimately show ?thesis
    by (simp add: WatchDirectory_event_def WatchDirectory_op_def Has_def writeEvent_def
        readFileContent_def oneFile_def regularFile_def maxSize_def ReadAll_def)
qed

text \<open>
  C2, amended. In single-path mode, a write event whose read succeeds: the previous
  content is fetched from the cache (empty when the cache has none), \<^verbatim>\<open>compareLines\<close> runs
  on the previous and the new content, the cache is set to the new content, and the
  callback is called with one record, of operation \<^verbatim>\<open>modified\<close>, whose line changes are
  the result of \<^verbatim>\<open>compareLines\<close>. In directory mode, a write event whose read succeeds:
  the callback is called with one record of operation \<^verbatim>\<open>modified\<close> that holds the new
  content, an empty previous content and no line changes.
\<close>

theorem write_event_records:
  "(Has event Write \<longrightarrow>
    FileWatcher_readFileContent fs (Name event) = (newContent, fileInfo, None) \<longrightarrow>
      (\<exists>changes.
         compareLines (cacheGet fw (Name event)) newContent = Some changes \<and>
         WatchFile_event fs fw event True =
           Some (fw\<lparr>fileCache := (fileCache fw)(Name event \<mapsto> newContent)\<rparr>,
                 [\<lparr>Path = Name event, Op = ''modified'', Content = newContent,
                   PrevContent = cacheGet fw (Name event), LineChanges = Some changes,
                   FileInfo = fileInfo\<rparr>]))) \<and>
   (Has event Write \<longrightarrow>
    readFileContent fs (Name event) = (newContent, fileInfo, None) \<longrightarrow>
      WatchDirectory_event fs event True =
        [\<lparr>Path = Name event, Op = ''modified'', Content = newContent, PrevContent = '''',
          LineChanges = None, FileInfo = fileInfo\<rparr>])"
proof (intro conjI impI)
  assume w: "Has event Write"
    and r: "FileWatcher_readFileContent fs (Name event) = (newContent, fileInfo, None)"
  show "\<exists>changes.
      compareLines (cacheGet fw (Name event)) newContent = Some changes \<and>
      WatchFile_event fs fw event True =
        Some (fw\<lparr>fileCache := (fileCache fw)(Name event \<mapsto> newContent)\<rparr>,
              [\<lparr>Path = Name event, Op = ''modified'', Content = newContent,
                PrevContent = cacheGet fw (Name event), LineChanges = Some changes,
                FileInfo = fileInfo\<rparr>])"
    using handleFileChange_ok [OF r, of fw True] w by (simp add: WatchFile_event_def)
next
  assume "Has event Write"
    and "readFileContent fs (Name event) = (newContent, fileInfo, None)"
  then show "WatchDirectory_event fs event True =
      [\<lparr>Path = Name event, Op = ''modified'', Content = newContent, PrevContent = '''',
        LineChanges = None, FileInfo = fileInfo\<rparr>]"
    by (simp add: WatchDirectory_event_def WatchDirectory_op_def)
qed

theorem write_event_records_witness:
  "Has (writeEvent ''f'') Write \<and>
   FileWatcher_readFileContent (oneFile ''f'' (regularFile 1 ''y'')) (Name (writeEvent ''f''))
     = (''y'', Some \<lparr>Size = 1, ModTime = 0, IsDir = False\<rparr>, None) \<and>
   readFileContent (oneFile ''f'' (regularFile 1 ''y'')) (Name (writeEvent ''f''))
     = (''y'', Some \<lparr>Size = 1, ModTime = 0, IsDir = False\<rparr>, None) \<and>
   WatchFile_event (oneFile ''f'' (regularFile 1 ''y''))
     \<lparr>fileCache = [''f'' \<mapsto> ''x'']\<rparr> (writeEvent ''f'') True
     = Some (\<lparr>fileCache = [''f'' \<mapsto> ''y'']\<rparr>,
             [\<lparr>Path = ''f'', Op = ''modified'', Content = ''y'', PrevContent = ''x'',
               LineChanges = Some [removed 1 ''x'', added 1 ''y''],
               FileInfo = Some \<lparr>Size = 1, ModTime = 0, IsDir = False\<rparr>\<rparr>]) \<and>
   WatchDirectory_event (oneFile ''f'' (regularFile 1 ''y'')) (writeEvent ''f'') True
     = [\<lparr>Path = ''f'', Op = ''modified'', Content = ''y'', PrevContent = '''',
         LineChanges = None, FileInfo = Some \<lparr>Size = 1, ModTime = 0, IsDir = False\<rparr>\<rparr>]"
proof -
  have h1: "Has (writeEvent ''f'') Write"
    by (simp add: Has_def writeEvent_def)
  have h2: "FileWatcher_readFileContent (oneFile ''f'' (regularFile 1 ''y''))
      (Name (writeEvent ''f'')) = (''y'', Some \<lparr>Size = 1, ModTime = 0, IsDir = False\<rparr>, None)"
    by (simp add: FileWatcher_readFileContent_def oneFile_def regularFile_def writeEvent_def
        maxSize_def readLoop_all)
  have h3: "readFileContent (oneFile ''f'' (regularFile 1 ''y''))
      (Name (writeEvent ''f'')) = (''y'', Some \<lparr>Size = 1, ModTime = 0, IsDir = False\<rparr>, None)"
    by (simp add: readFileContent_def oneFile_def regularFile_def writeEvent_def
        maxSize_def ReadAll_def)
  have c: "compareLines ''x'' ''y'' = Some [removed 1 ''x'', added 1 ''y'']"
    by code_simp
  have g: "cacheGet \<lparr>fileCache = [''f'' \<mapsto> ''x'']\<rparr> ''f'' = ''x''"
    by (simp add: cacheGet_def)
  have n: "Name (writeEvent ''f'') = ''f''"
    by (simp add: writeEvent_def)
  show ?thesis
    using write_event_records [of "writeEvent ''f''" "oneFile ''f'' (regularFile 1 ''y'')" "''y''"
        "Some \<lparr>Size = 1, ModTime = 0, IsDir = False\<rparr>" "\<lparr>fileCache = [''f'' \<mapsto> ''x'']\<rparr>"]
      h1 h2 h3 c
    by (auto simp: g n)
qed

text \<open>
  C6. A single-file watcher receives a write event for a file whose size is above 10 MiB:
  the callback is not called and the watcher after the event is the watcher before it, its
  cache with it. A write event whose read then succeeds is diffed against the content the
  cache held before both events, and that content is the previous content of the record.
\<close>

theorem oversized_write_keeps_cache:
  assumes "Has event Write"
    and "fsA (Name event) = Inr fileA" "Stat fileA = Inr infoA" "Size infoA > 10 * 1024 * 1024"
    and "FileWatcher_readFileContent fsB (Name event) = (newContent, infoB, None)"
  shows "\<exists>changes.
     WatchFile_event fsA fw event callback = Some (fw, []) \<and>
     compareLines (cacheGet fw (Name event)) newContent = Some changes \<and>
     WatchFile_event fsB fw event True =
       Some (fw\<lparr>fileCache := (fileCache fw)(Name event \<mapsto> newContent)\<rparr>,
             [\<lparr>Path = Name event, Op = ''modified'', Content = newContent,
               PrevContent = cacheGet fw (Name event), LineChanges = Some changes,
               FileInfo = infoB\<rparr>])"
proof -
  have "unreadable fsA (Name event)"
    using assms(2-4) by (simp add: unreadable_def)
  then have "WatchFile_event fsA fw event callback = Some (fw, [])"
    using assms(1) by (simp add: WatchFile_event_def failed_iff_unreadable handleFileChange_failed)
  moreover obtain changes where
    "compareLines (cacheGet fw (Name event)) newContent = Some changes"
    "handleFileChange fsB fw (Name event) True =
       Some (fw\<lparr>fileCache := (fileCache fw)(Name event \<mapsto> newContent)\<rparr>,
             [\<lparr>Path = Name event, Op = ''modified'', Content = newContent,
               PrevContent = cacheGet fw (Name event), LineChanges = Some changes,
               FileInfo = infoB\<rparr>])"
    using handleFileChange_ok [OF assms(5), of fw True] by auto
  ultimately show ?thesis
    using assms(1) by (simp add: WatchFile_event_def)
qed

theorem oversized_write_keeps_cache_witness:
  "Has (writeEvent ''f'') Write \<and>
   oneFile ''f'' (regularFile (10 * 1024 * 1024 + 1) ''b'') (Name (writeEvent ''f''))
     = Inr (regularFile (10 * 1024 * 1024 + 1) ''b'') \<and>
   Stat (regularFile (10 * 1024 * 1024 + 1) ''b'')
     = Inr \<lparr>Size = 10 * 1024 * 1024 + 1, ModTime = 0, IsDir = False\<rparr> \<and>
   Size \<lparr>Size = 10 * 1024 * 1024 + 1, ModTime = 0, IsDir = False\<rparr> > 10 * 1024 * 1024 \<and>
   FileWatcher_readFileContent (oneFile ''f'' (regularFile 1 ''b'')) (Name (writeEvent ''f''))
     = (''b'', Some \<lparr>Size = 1, ModTime = 0, IsDir = False\<rparr>, None) \<and>
   WatchFile_event (oneFile ''f'' (regularFile (10 * 1024 * 1024 + 1) ''b''))
     \<lparr>fileCache = [''f'' \<mapsto> ''a'']\<rparr> (writeEvent ''f'') True
     = Some (\<lparr>fileCache = [''f'' \<mapsto> ''a'']\<rparr>, []) \<and>
   compareLines ''a'' ''b'' = Some [removed 1 ''a'', added 1 ''b''] \<and>
   WatchFile_event (oneFile ''f'' (regularFile 1 ''b''))
     \<lparr>fileCache = [''f'' \<mapsto> ''a'']\<rparr> (writeEvent ''f'') True
     = Some (\<lparr>fileCache = [''f'' \<mapsto> ''b'']\<rparr>,
             [\<lparr>Path = ''f'', Op = ''modified'', Content = ''b'', PrevContent = ''a'',
               LineChanges = Some [removed 1 ''a'', added 1 ''b''],
               FileInfo = Some \<lparr>Size = 1, ModTime = 0, IsDir = False\<rparr>\<rparr>])"
proof -
  have h1: "Has (writeEvent ''f'') Write"
    by (simp add: Has_def writeEvent_def)
  have h2: "oneFile ''f'' (regularFile (10 * 1024 * 1024 + 1) ''b'') (Name (writeEvent ''f''))
      = Inr (regularFile (10 * 1024 * 1024 + 1) ''b'')"
    by (simp add: oneFile_def writeEvent_def)
  have h3: "Stat (regularFile (10 * 1024 * 1024 + 1) ''b'')
      = Inr \<lparr>Size = 10 * 1024 * 1024 + 1, ModTime = 0, IsDir = False\<rparr>"
    by (simp add: regularFile_def)
  have h4: "Size \<lparr>Size = 10 * 1024 * 1024 + 1, ModTime = 0, IsDir = False\<rparr> > 10 * 1024 * 1024"
    by simp
  have h5: "FileWatcher_readFileContent (oneFile ''f'' (regularFile 1 ''b''))
      (Name (writeEvent ''f'')) = (''b'', Some \<lparr>Size = 1, ModTime = 0, IsDir = False\<rparr>, None)"
    by (simp add: FileWatcher_readFileContent_def oneFile_def regularFile_def writeEvent_def
        maxSize_def readLoop_all)
  have c: "compareLines ''a'' ''b'' = Some [removed 1 ''a'', added 1 ''b'']"
    by code_simp
  have g: "cacheGet \<lparr>fileCache = [''f'' \<mapsto> ''a'']\<rparr> ''f'' = ''a''"
    by (simp add: cacheGet_def)
  have n: "Name (writeEvent ''f'') = ''f''"
    by (simp add: writeEvent_def)
  show ?thesis
    using oversized_write_keeps_cache [where event = "writeEvent ''f''"
        and fsA = "oneFile ''f'' (regularFile (10 * 1024 * 1024 + 1) ''b'')"
        and fileA = "regularFile (10 * 1024 * 1024 + 1) ''b''"
        and infoA = "\<lparr>Size = 10 * 1024 * 1024 + 1, ModTime = 0, IsDir = False\<rparr>"
        and fsB = "oneFile ''f'' (regularFile 1 ''b'')" and newContent = "''b''"
        and infoB = "Some \<lparr>Size = 1, ModTime = 0, IsDir = False\<rparr>"
        and fw = "\<lparr>fileCache = [''f'' \<mapsto> ''a'']\<rparr>" and callback = True]
      h1 h2 h3 h4 h5 c
    by (auto simp: g n)
qed

section \<open>The claims about reading and the size cap\<close>

text \<open>
  C10, as stated, fails in one direction: a file that can be opened, whose \<^verbatim>\<open>Stat\<close>
  succeeds and whose size is under the cap still fails to be read when reading its bytes
  fails. A directory is such a file, and directory mode is sent the events of the
  directories made inside a watched directory.
\<close>

theorem readFileContent_read_error_counterexample:
  "oneFile ''d'' directory ''d'' = Inr directory \<and>
   Stat directory = Inr \<lparr>Size = 4096, ModTime = 0, IsDir = True\<rparr> \<and>
   \<not> (4096 > (10 * 1024 * 1024 :: int)) \<and>
   FileWatcher_readFileContent (oneFile ''d'' directory) ''d''
     = ('''', None, Some (SysError ''is a directory'')) \<and>
   readFileContent (oneFile ''d'' directory) ''d''
     = ('''', Some \<lparr>Size = 4096, ModTime = 0, IsDir = True\<rparr>, Some (SysError ''is a directory''))"
  by (simp add: oneFile_def directory_def FileWatcher_readFileContent_def readFileContent_def
      readLoop_all ReadAll_def maxSize_def)

text \<open>
  C10, amended. Each of the two functions \<^verbatim>\<open>readFileContent\<close> fails if and only if the
  file cannot be opened, or cannot be stat'ed, or its stat'ed size is strictly above
  \<^verbatim>\<open>10*1024*1024\<close>, or reading its bytes fails with an error other than end of file; the
  event is then dropped. A file of exactly 10 MiB that reads without error is read in
  full.
\<close>

theorem readFileContent_fails_iff:
  "(failed (FileWatcher_readFileContent fs filePath) \<longleftrightarrow> unreadable fs filePath) \<and>
   (failed (readFileContent fs filePath) \<longleftrightarrow> unreadable fs filePath) \<and>
   (unreadable fs filePath \<longrightarrow> handleFileChange fs fw filePath callback = Some (fw, [])) \<and>
   (unreadable fs (Name event) \<longrightarrow> Has event Write \<longrightarrow>
      WatchDirectory_event fs event callback = []) \<and>
   (fs filePath = Inr fl \<longrightarrow> Stat fl = Inr fileInfo \<longrightarrow> Size fileInfo = 10 * 1024 * 1024 \<longrightarrow>
    ReadErr fl = None \<longrightarrow>
      FileWatcher_readFileContent fs filePath = (Bytes fl, Some fileInfo, None) \<and>
      readFileContent fs filePath = (Bytes fl, Some fileInfo, None))"
  using failed_iff_unreadable [of fs filePath] failed_iff_unreadable(2) [of fs "Name event"]
    handleFileChange_failed [of fs filePath fw callback]
    WatchDirectory_event_failed [of fs event callback]
    read_ok [of fs filePath fl fileInfo]
  by simp

theorem readFileContent_fails_iff_witness:
  "unreadable (oneFile ''big'' (regularFile (10 * 1024 * 1024 + 1) ''abc'')) ''big'' \<and>
   Has (writeEvent ''big'') Write \<and>
   handleFileChange (oneFile ''big'' (regularFile (10 * 1024 * 1024 + 1) ''abc''))
     \<lparr>fileCache = Map.empty\<rparr> ''big'' True = Some (\<lparr>fileCache = Map.empty\<rparr>, []) \<and>
   WatchDirectory_event (oneFile ''big'' (regularFile (10 * 1024 * 1024 + 1) ''abc''))
     (writeEvent ''big'') True = [] \<and>
   oneFile ''f'' (regularFile (10 * 1024 * 1024) ''abc'') ''f''
     = Inr (regularFile (10 * 1024 * 1024) ''abc'') \<and>
   Size \<lparr>Size = 10 * 1024 * 1024, ModTime = 0, IsDir = False\<rparr> = 10 * 1024 * 1024 \<and>
   \<not> unreadable (oneFile ''f'' (regularFile (10 * 1024 * 1024) ''abc'')) ''f'' \<and>
   FileWatcher_readFileContent (oneFile ''f'' (regularFile (10 * 1024 * 1024) ''abc'')) ''f''
     = (''abc'', Some \<lparr>Size = 10 * 1024 * 1024, ModTime = 0, IsDir = False\<rparr>, None) \<and>
   readFileContent (oneFile ''f'' (regularFile (10 * 1024 * 1024) ''abc'')) ''f''
     = (''abc'', Some \<lparr>Size = 10 * 1024 * 1024, ModTime = 0, IsDir = False\<rparr>, None)"
  using readFileContent_fails_iff [of "oneFile ''big'' (regularFile (10 * 1024 * 1024 + 1) ''abc'')"
      "''big''" "\<lparr>fileCache = Map.empty\<rparr>" True "writeEvent ''big''"]
    readFileContent_fails_iff [of "oneFile ''f'' (regularFile (10 * 1024 * 1024) ''abc'')"
      "''f''" _ _ _ "regularFile (10 * 1024 * 1024) ''abc''"
      "\<lparr>Size = 10 * 1024 * 1024, ModTime = 0, IsDir = False\<rparr>"]
  by (simp add: oneFile_def regularFile_def unreadable_def writeEvent_def Has_def)

section \<open>The claims about messages\<close>

text \<open>
  C3, as stated, fails for the file metadata: the field \<^verbatim>\<open>FileInfo\<close> is tagged
  \<^verbatim>\<open>json:"file_info"\<close>, so the pushed message has a member \<^verbatim>\<open>file_info\<close> beside the
  path, the operation and the line changes: \<^verbatim>\<open>null\<close> for a removal, an object with no
  member for a modification.
\<close>

theorem wire_message_has_file_info_counterexample:
  "onFileChange
     \<lparr>Path = ''f'', Op = ''removed'', Content = '''', PrevContent = '''',
      LineChanges = None, FileInfo = None\<rparr>
     = JObject [(''data'', JObject [(''path'', JString ''f''), (''op'', JString ''removed''),
                  (''line_changes'', JNull), (''file_info'', JNull)]),
                (''type'', JString ''log'')] \<and>
   onFileChange
     \<lparr>Path = ''f'', Op = ''modified'', Content = ''y'', PrevContent = ''x'',
      LineChanges = Some [removed 1 ''x'', added 1 ''y''],
      FileInfo = Some \<lparr>Size = 1, ModTime = 0, IsDir = False\<rparr>\<rparr>
     = JObject [(''data'', JObject [(''path'', JString ''f''), (''op'', JString ''modified''),
                  (''line_changes'', JArray
                     [JObject [(''type'', JString ''removed''), (''old_line'', JNumber 1),
                        (''new_line'', JNumber 0), (''old_text'', JString ''x''),
                        (''new_text'', JString '''')],
                      JObject [(''type'', JString ''added''), (''old_line'', JNumber 0),
                        (''new_line'', JNumber 1), (''old_text'', JString ''''),
                        (''new_text'', JString ''y'')]]),
                  (''file_info'', JObject [])]),
                (''type'', JString ''log'')] \<and>
   ''file_info'' \<in> set (keys (the (member (onFileChange
     \<lparr>Path = ''f'', Op = ''removed'', Content = '''', PrevContent = '''',
      LineChanges = None, FileInfo = None\<rparr>) ''data'')))"
  by code_simp

text \<open>
  C3, amended. The message pushed for a change record is an object with the members
  \<^verbatim>\<open>data\<close> and \<^verbatim>\<open>type\<close>; \<^verbatim>\<open>type\<close> is \<^verbatim>\<open>log\<close>, and \<^verbatim>\<open>data\<close> has exactly the members
  \<^verbatim>\<open>path\<close>, \<^verbatim>\<open>op\<close>, \<^verbatim>\<open>line_changes\<close> and \<^verbatim>\<open>file_info\<close>, in this order. The path, the
  operation and the type and the two texts of every line change are the strings of the
  record with U+FFFD in place of every byte that is not part of valid UTF-8; the line
  numbers are those of the record; \<^verbatim>\<open>line_changes\<close> is \<^verbatim>\<open>null\<close> for a record without
  line changes. \<^verbatim>\<open>file_info\<close> is \<^verbatim>\<open>null\<close> for a record without file info and an
  object with no member otherwise. So the content and the previous content are excluded,
  and so are the size and the modification time: the message is the same whatever they
  are.
\<close>

theorem wire_message_members:
  "keys (onFileChange change) = [''data'', ''type''] \<and>
   member (onFileChange change) ''type'' = Some (JString ''log'') \<and>
   member (onFileChange change) ''data'' = Some (marshalFileChange change) \<and>
   keys (marshalFileChange change) = [''path'', ''op'', ''line_changes'', ''file_info''] \<and>
   member (marshalFileChange change) ''path'' = Some (JString (validUTF8 (Path change))) \<and>
   member (marshalFileChange change) ''op'' = Some (JString (validUTF8 (Op change))) \<and>
   member (marshalFileChange change) ''line_changes''
     = Some (case LineChanges change of
               None \<Rightarrow> JNull
             | Some cs \<Rightarrow>
                 JArray (map (\<lambda>c. JObject
                   [(''type'', JString (validUTF8 (Type c))),
                    (''old_line'', JNumber (int (OldLine c))),
                    (''new_line'', JNumber (int (NewLine c))),
                    (''old_text'', JString (validUTF8 (OldText c))),
                    (''new_text'', JString (validUTF8 (NewText c)))]) cs)) \<and>
   member (marshalFileChange change) ''file_info''
     = Some (case FileInfo change of None \<Rightarrow> JNull | Some info \<Rightarrow> JObject []) \<and>
   onFileChange (change\<lparr>Content := content, PrevContent := prevContent\<rparr>)
     = onFileChange change \<and>
   onFileChange (change\<lparr>FileInfo := Some info1\<rparr>)
     = onFileChange (change\<lparr>FileInfo := Some info2\<rparr>)"
proof -
  have "marshalLineChange = (\<lambda>c. JObject
      [(''type'', JString (validUTF8 (Type c))),
       (''old_line'', JNumber (int (OldLine c))),
       (''new_line'', JNumber (int (NewLine c))),
       (''old_text'', JString (validUTF8 (OldText c))),
       (''new_text'', JString (validUTF8 (NewText c)))])"
    by (simp add: fun_eq_iff marshalLineChange_def)
  then show ?thesis
    by (simp add: onFileChange_def marshalFileChange_def marshalFileInfo_def
        split: option.splits)
qed

text \<open>
  C1. The code does not do what the claim says for a message that is not valid JSON:
  \<^verbatim>\<open>onSocketMessage\<close> ends the process, and so does the round of the read loop that called
  it, whatever the error of \<^verbatim>\<open>json.Unmarshal\<close>, the client and the server are.
\<close>

theorem malformed_message_exits:
  "onSocketMessage watchPath fs (Inl err) = Exit 1 \<and>
   handleClientRead_message (onSocketMessage watchPath fs) (Inl err) c s = Exit 1 \<and>
   handleClientRead_message (onSocketMessage watchPath fs)
     (Inl (SyntaxError ''unexpected end of JSON input'')) c s \<noteq> Return s"
  by (simp add: onSocketMessage_def handleClientRead_message_def)

section \<open>The claim about the hub\<close>

text \<open>
  C5. One round of the dispatcher, over a registry whose clients have open channels, the
  map visited in any order: the round returns (no branch of it waits); every registered
  client whose channel held fewer than 256 messages stays registered and has the message
  at the end of its channel; every registered client whose channel was full is no longer
  registered, its channel and its connection closed; and the registry is again one whose
  clients have open channels.
\<close>

theorem dispatch_round:
  assumes "registryOpen s" "distinct order" "set order = clients s"
  shows "\<exists>s'. BroadcastMessages_range message order s = Return s' \<and>
     (\<forall>c \<in> clients s.
        (length (send (heap s c)) < 256 \<longrightarrow>
           c \<in> clients s' \<and> send (heap s' c) = send (heap s c) @ [message] \<and>
           \<not> sendClosed (heap s' c) \<and> connClosed (heap s' c) = connClosed (heap s c)) \<and>
        (\<not> length (send (heap s c)) < 256 \<longrightarrow>
           c \<notin> clients s' \<and> sendClosed (heap s' c) \<and> connClosed (heap s' c))) \<and>
     clients s' \<subseteq> clients s \<and>
     (\<forall>c. c \<notin> clients s \<longrightarrow> heap s' c = heap s c) \<and>
     registryOpen s'"
proof -
  have "\<forall>c \<in> set order. \<not> sendClosed (heap s c)"
    using assms(1,3) by (simp add: registryOpen_def)
  from BroadcastMessages_range_open [OF assms(2) this, of message]
  show ?thesis
    using assms(1,3) by (auto simp: registryOpen_def offer_def)
qed

theorem dispatch_round_witness:
  "registryOpen (twoClients ''old'') \<and> distinct [0, 1 :: nat] \<and>
   set [0, 1] = clients (twoClients ''old'') \<and>
   length (send (heap (twoClients ''old'') 0)) < 256 \<and>
   \<not> length (send (heap (twoClients ''old'') 1)) < 256 \<and>
   (\<exists>s'. BroadcastMessages_range ''new'' [0, 1] (twoClients ''old'') = Return s' \<and>
      clients s' = {0} \<and> send (heap s' 0) = [''new''] \<and> \<not> sendClosed (heap s' 0) \<and>
      sendClosed (heap s' 1) \<and> connClosed (heap s' 1))"
proof -
  have h1: "registryOpen (twoClients ''old'')"
    by (simp add: registryOpen_def twoClients_def idleClient_def slowClient_def)
  have h2: "distinct [0, 1 :: nat]"
    by simp
  have h3: "set [0, 1] = clients (twoClients ''old'')"
    by (simp add: twoClients_def)
  have l0: "length (send (heap (twoClients ''old'') 0)) < 256"
    by (simp add: twoClients_def idleClient_def)
  have l1: "\<not> length (send (heap (twoClients ''old'') 1)) < 256"
    by (simp add: twoClients_def slowClient_def)
  have s0: "send (heap (twoClients ''old'') 0) = []"
    by (simp add: twoClients_def idleClient_def)
  have c: "clients (twoClients ''old'') = {0, 1}"
    by (simp add: twoClients_def)
  obtain s' where r: "BroadcastMessages_range ''new'' [0, 1] (twoClients ''old'') = Return s'"
    and a: "\<forall>c \<in> clients (twoClients ''old'').
        (length (send (heap (twoClients ''old'') c)) < 256 \<longrightarrow>
           c \<in> clients s' \<and>
           send (heap s' c) = send (heap (twoClients ''old'') c) @ [''new''] \<and>
           \<not> sendClosed (heap s' c) \<and>
           connClosed (heap s' c) = connClosed (heap (twoClients ''old'') c)) \<and>
        (\<not> length (send (heap (twoClients ''old'') c)) < 256 \<longrightarrow>
           c \<notin> clients s' \<and> sendClosed (heap s' c) \<and> connClosed (heap s' c))"
    and sub: "clients s' \<subseteq> clients (twoClients ''old'')"
    using dispatch_round [OF h1 h2 h3, of "''new''"] by blast
  have a0: "0 \<in> clients s' \<and> send (heap s' 0) = [''new''] \<and> \<not> sendClosed (heap s' 0)"
    using a l0 s0 c by auto
  have a1: "1 \<notin> clients s' \<and> sendClosed (heap s' 1) \<and> connClosed (heap s' 1)"
    using a l1 c by auto
  have "clients s' = {0}"
    using a0 a1 sub c by auto
  then show ?thesis
    using h1 h2 h3 l0 l1 r a0 a1 by blast
qed

end
